theory Spec2Isabelle
  imports Main "HOL-Library.AList"
begin

section \<open>MARBL diagnostics to diag table: the embedding\<close>

text \<open>
  A shallow embedding of \<^verbatim>\<open>cime_config/MARBL_scripts/MARBL_diags_to_diag_table.py\<close>.
  Python strings are modelled as \<^typ>\<open>string\<close>, restricted to code points below 256.
  Python lists are HOL lists, ordered dictionaries are association lists with
  \<^const>\<open>map_of\<close> for lookup and \<^const>\<open>AList.update\<close> for item assignment
  (replace in place, or add at the end).
\<close>

subsection \<open>Errors\<close>

text \<open>
  The script ends early in two ways: \<^verbatim>\<open>logger.error(...); sys.exit(1)\<close>, one value of
  \<open>fatal\<close> per call site, and an uncaught Python exception. \<open>OSError\<close> stands for the
  exception of \<^verbatim>\<open>open(filename, "w")\<close>, or of the write that follows it, on a path that
  cannot be written (FileNotFoundError, PermissionError and the other subclasses), with the
  path.
\<close>

datatype fatal =
    NoInputPath
  | FileNotFound
  | NoVariableName
  | NoFrequencyOperator
  | DuplicateFrequency

datatype error =
    Fatal fatal
  | KeyError string
  | IndexError
  | OSError string

text \<open>
  The status of the process: \<^verbatim>\<open>sys.exit(1)\<close> gives 1, and the interpreter ends with
  status 1 on an uncaught exception.
\<close>

fun exit_status :: "error \<Rightarrow> nat" where
  "exit_status (Fatal f) = 1"
| "exit_status (KeyError k) = 1"
| "exit_status IndexError = 1"
| "exit_status (OSError filename) = 1"

subsection \<open>The string methods the script calls\<close>

text \<open>\<^verbatim>\<open>str.isspace\<close> on one character, for code points below 256.\<close>

definition isspace :: "char \<Rightarrow> bool" where
  "isspace c = ((of_char c :: nat) \<in> {9, 10, 11, 12, 13, 28, 29, 30, 31, 32, 133, 160})"

text \<open>\<^verbatim>\<open>s.strip()\<close>: leading and trailing whitespace removed.\<close>

definition str_strip :: "string \<Rightarrow> string" where
  "str_strip s = rev (dropWhile isspace (rev (dropWhile isspace s)))"

text \<open>
  \<^verbatim>\<open>s.split(sep)\<close> with a separator of one character: the pieces between the
  occurrences of \<open>sep\<close>, never an empty list (so the last case below is never taken).
\<close>

fun str_split :: "char \<Rightarrow> string \<Rightarrow> string list" where
  "str_split sep [] = [[]]"
| "str_split sep (c # cs) =
     (if c = sep then [] # str_split sep cs
      else (case str_split sep cs of
              piece # pieces \<Rightarrow> (c # piece) # pieces
            | [] \<Rightarrow> [[c]]))"

subsection \<open>The line parser\<close>

text \<open>
  The loop of \<^verbatim>\<open>_parse_line\<close> over \<^verbatim>\<open>line_split[1].split(',')\<close>, with the two
  accumulators \<^verbatim>\<open>freq\<close> and \<^verbatim>\<open>op\<close>.
\<close>

fun parse_freq_ops :: "string list \<Rightarrow> string list \<Rightarrow> string list \<Rightarrow> error + (string list \<times> string list)" where
  "parse_freq_ops freq op [] = Inr (freq, op)"
| "parse_freq_ops freq op (freq_op # rest) =
     (let freq_op_split = str_split CHR ''_'' (str_strip freq_op) in
      if length freq_op_split \<noteq> 2 then Inl (Fatal NoFrequencyOperator)
      else parse_freq_ops (freq @ [freq_op_split ! 0]) (op @ [freq_op_split ! 1]) rest)"

text \<open>\<^verbatim>\<open>line_in.split('#')[0].strip()\<close>: the line without its comment.\<close>

definition line_loc :: "string \<Rightarrow> string" where
  "line_loc line_in = str_strip (hd (str_split CHR ''#'' line_in))"

text \<open>
  \<^verbatim>\<open>_parse_line\<close>. The result \<open>None\<close> is the triple \<^verbatim>\<open>(None, None, None)\<close> of an
  empty or commented line.
\<close>

definition parse_line :: "string \<Rightarrow> error + (string \<times> string list \<times> string list) option" where
  "parse_line line_in =
     (if length (line_loc line_in) = 0 then Inr None
      else
        let line_split = str_split CHR '':'' (line_loc line_in) in
        if length line_split \<noteq> 2 then Inl (Fatal NoVariableName)
        else
          (case parse_freq_ops [] [] (str_split CHR '','' (line_split ! 1)) of
             Inl e \<Rightarrow> Inl e
           | Inr (freq, op) \<Rightarrow> Inr (Some (str_strip (line_split ! 0), freq, op))))"

text \<open>
  A declaration line written in the documented shape
  \<^verbatim>\<open>NAME : FREQ1_OP1, FREQ2_OP2, ...\<close> from a name and its frequency/operator pairs.
\<close>

fun join_entries :: "(string \<times> string) list \<Rightarrow> string" where
  "join_entries [] = []"
| "join_entries [(f, p)] = f @ ''_'' @ p"
| "join_entries ((f, p) # e # es) = f @ ''_'' @ p @ '', '' @ join_entries (e # es)"

definition declaration_line :: "string \<Rightarrow> (string \<times> string) list \<Rightarrow> string" where
  "declaration_line name entries = name @ '' : '' @ join_entries entries"

text \<open>The characters an identifier of that shape is free of.\<close>

definition tag_char :: "char \<Rightarrow> bool" where
  "tag_char c = (\<not> isspace c \<and> c \<noteq> CHR ''#'' \<and> c \<noteq> CHR '':'' \<and> c \<noteq> CHR '','' \<and> c \<noteq> CHR ''_'')"

definition name_char :: "char \<Rightarrow> bool" where
  "name_char c = (\<not> isspace c \<and> c \<noteq> CHR ''#'' \<and> c \<noteq> CHR '':'')"

definition tags_ok :: "(string \<times> string) \<Rightarrow> bool" where
  "tags_ok e = (list_all tag_char (fst e) \<and> list_all tag_char (snd e))"

subsection \<open>Stream templates and the store\<close>

text \<open>
  The values a template holds for its suffix, frequencies and units: a string, a number, or
  a dictionary from a condition (a string the model evaluates later) to such a value.
\<close>

datatype pyvalue = Text string | Number int

datatype setting = Plain pyvalue | Cond "(string \<times> pyvalue) list"

text \<open>
  The one dictionary of \<^verbatim>\<open>template["fields"]\<close>. The field \<open>field_lists\<close> is
  its key \<^verbatim>\<open>"lists"\<close>: a list of lists of variable names, the first of which is the
  variable-list that \<^verbatim>\<open>update\<close> appends to.
\<close>

record fields_entry =
  module :: string
  packing :: int
  field_lists :: "string list list"

text \<open>
  \<^verbatim>\<open>update\<close> and \<^verbatim>\<open>dump_to_json\<close> mutate the list under \<^verbatim>\<open>"fields"\<close> in place,
  and \<^verbatim>\<open>dict.copy()\<close> is shallow, so that list is an object of a store: a template holds
  its address, and the store maps the address to the list \<^verbatim>\<open>[{"module": ..., "packing":
  ..., "lists": ...}]\<close>. The other values of a template are never mutated and are held by
  value. An address that was never allocated holds the empty list.
\<close>

type_synonym addr = nat

record template =
  suffix :: setting
  output_freq :: setting
  new_file_freq :: setting
  output_freq_units :: setting
  new_file_freq_units :: setting
  time_axis_units :: string
  reduction_method :: string
  regional_section :: string
  fields_ref :: addr

text \<open>
  An object of \<^verbatim>\<open>DiagTableClass\<close>: the ordered dictionary \<^verbatim>\<open>_diag_table_dict\<close>,
  with the store its templates point into and the next free address.
\<close>

record DiagTable =
  diag_table_dict :: "(string \<times> template) list"
  heap :: "addr \<Rightarrow> fields_entry list"
  next_addr :: addr

text \<open>The truth value Python gives \<^verbatim>\<open>new_file_freq_units\<close> in \<^verbatim>\<open>if new_file_freq_units:\<close>.\<close>

fun truthy :: "setting option \<Rightarrow> bool" where
  "truthy None = False"
| "truthy (Some (Plain (Text s))) = (s \<noteq> [])"
| "truthy (Some (Plain (Number n))) = (n \<noteq> 0)"
| "truthy (Some (Cond d)) = (d \<noteq> [])"

text \<open>
  \<^verbatim>\<open>_dict_template\<close>, with its default arguments written out at the call sites. It
  builds a new list \<^verbatim>\<open>[{..., "lists": [[]]}]\<close>: the model allocates it at the next free
  address.
\<close>

definition dict_template ::
  "setting \<Rightarrow> setting \<Rightarrow> setting option \<Rightarrow> setting \<Rightarrow> setting \<Rightarrow> string \<Rightarrow> int \<Rightarrow>
   DiagTable \<Rightarrow> template \<times> DiagTable" where
  "dict_template suffix' output_freq_units' new_file_freq_units' output_freq' new_file_freq'
       module' packing' self =
     (\<lparr>suffix = suffix',
       output_freq = output_freq',
       new_file_freq = new_file_freq',
       output_freq_units = output_freq_units',
       new_file_freq_units =
         (if truthy new_file_freq_units' then the new_file_freq_units' else output_freq_units'),
       time_axis_units = ''days'',
       reduction_method = ''mean'',
       regional_section = ''none'',
       fields_ref = next_addr self\<rparr>,
      self\<lparr>heap := (heap self)(next_addr self :=
                 [\<lparr>module = module', packing = packing', field_lists = [[]]\<rparr>]),
           next_addr := Suc (next_addr self)\<rparr>)"

text \<open>\<^verbatim>\<open>self._diag_table_dict[key] = self._dict_template(...)\<close>.\<close>

definition set_template :: "string \<Rightarrow> (DiagTable \<Rightarrow> template \<times> DiagTable) \<Rightarrow> DiagTable \<Rightarrow> DiagTable" where
  "set_template key build self =
     (case build self of
        (t, self') \<Rightarrow> self'\<lparr>diag_table_dict := AList.update key t (diag_table_dict self')\<rparr>)"

definition spinup :: string where
  "spinup = ''$OCN_DIAG_MODE == \"spinup\"''"

text \<open>A statement under \<^verbatim>\<open>if cond:\<close> with no \<^verbatim>\<open>else\<close>, as a change of the object.\<close>

definition if_then :: "bool \<Rightarrow> ('s \<Rightarrow> 's) \<Rightarrow> 's \<Rightarrow> 's" where
  "if_then cond stmt self = (if cond then stmt self else self)"

text \<open>
  \<^verbatim>\<open>DiagTableClass.__init__\<close>: the nine assignments to \<^verbatim>\<open>self._diag_table_dict\<close>,
  run in the order of the source on the empty dictionary.
\<close>

definition DiagTableClass_init :: "string \<Rightarrow> DiagTable" where
  "DiagTableClass_init vert_grid =
     (let one = Plain (Number 1);
          output_freq_units_dict =
            Cond [(spinup, Text ''years''), (''$TEST == True'', Text ''days''), (''else'', Text ''months'')];
          output_freq_dict = Cond [(spinup, Number 5), (''else'', Number 1)];
          new_file_freq_units_dict = Cond [(spinup, Text ''years''), (''else'', Text ''months'')];
          days = Plain (Text ''days'');
          years = Plain (Text ''years'')
      in fold (\<lambda>stmt self. stmt self)
        [set_template ''medium''
           (dict_template
              (Cond [(spinup, Text ''h_bgc_annual%4yr''),
                     (''$TEST == True'', Text ''h_bgc_daily%4yr-%2mo-%2dy''),
                     (''else'', Text ''h_bgc_monthly%4yr-%2mo'')])
              output_freq_units_dict None one one ''ocean_model'' 1),
         if_then (vert_grid \<in> set [''interpolated'', ''both''])
           (set_template ''medium_z''
              (dict_template
                 (Cond [(spinup, Text ''h_bgc_annual_z%4yr''),
                        (''$TEST == True'', Text ''h_bgc_daily_z%4yr-%2mo-%2dy''),
                        (''else'', Text ''h_bgc_monthly_z%4yr-%2mo'')])
                 output_freq_units_dict None one one ''ocean_model_z'' 1)),
         if_then (vert_grid \<in> set [''native'', ''both''])
           (set_template ''medium_native_z''
              (dict_template
                 (Cond [(spinup, Text ''hm_bgc_annual_z%4yr''),
                        (''$TEST == True'', Text ''hm_bgc_daily_z%4yr-%2mo-%2dy''),
                        (''else'', Text ''hm_bgc_monthly_z%4yr-%2mo'')])
                 output_freq_units_dict None one one ''ocean_model'' 1)),
         set_template ''high''
           (dict_template
              (Cond [(spinup, Text ''h_bgc_daily5%4yr''), (''else'', Text ''h_bgc_daily%4yr-%2mo'')])
              days (Some new_file_freq_units_dict) output_freq_dict one ''ocean_model'' 1),
         if_then (vert_grid \<in> set [''interpolated'', ''both''])
           (set_template ''high_z''
              (dict_template
                 (Cond [(spinup, Text ''h_bgc_daily5_z%4yr''), (''else'', Text ''h_bgc_daily_z%4yr-%2mo'')])
                 days (Some new_file_freq_units_dict) output_freq_dict one ''ocean_model_z'' 1)),
         if_then (vert_grid \<in> set [''native'', ''both''])
           (set_template ''high_native_z''
              (dict_template
                 (Cond [(spinup, Text ''hm_bgc_daily5_z%4yr''), (''else'', Text ''hm_bgc_daily_z%4yr-%2mo'')])
                 days (Some new_file_freq_units_dict) output_freq_dict one ''ocean_model'' 1)),
         set_template ''low''
           (dict_template
              (Cond [(spinup, Text ''h_bgc_annual2%4yr''), (''else'', Text ''h_bgc_annual%4yr'')])
              years None one one ''ocean_model'' 1),
         if_then (vert_grid \<in> set [''interpolated'', ''both''])
           (set_template ''low_z''
              (dict_template
                 (Cond [(spinup, Text ''h_bgc_annual2_z%4yr''), (''else'', Text ''h_bgc_annual_z%4yr'')])
                 years None one one ''ocean_model_z'' 1)),
         if_then (vert_grid \<in> set [''native'', ''both''])
           (set_template ''low_native_z''
              (dict_template
                 (Cond [(spinup, Text ''hm_bgc_annual2_z%4yr''), (''else'', Text ''hm_bgc_annual_z%4yr'')])
                 years None one one ''ocean_model'' 1))]
        \<lparr>diag_table_dict = [], heap = (\<lambda>a. []), next_addr = 0\<rparr>)"

subsection \<open>update\<close>

text \<open>
  \<^verbatim>\<open>self._diag_table_dict[key]["fields"][0]["lists"][0].append(varname)\<close>: a missing key
  raises KeyError, an empty list under an index raises IndexError, and the append changes the
  stored object.
\<close>

definition append_varname :: "string \<Rightarrow> string \<Rightarrow> DiagTable \<Rightarrow> error + DiagTable" where
  "append_varname key varname self =
     (case map_of (diag_table_dict self) key of
        None \<Rightarrow> Inl (KeyError key)
      | Some t \<Rightarrow>
          (case heap self (fields_ref t) of
             [] \<Rightarrow> Inl IndexError
           | f # fs \<Rightarrow>
               (case field_lists f of
                  [] \<Rightarrow> Inl IndexError
                | l # ls \<Rightarrow>
                    Inr (self\<lparr>heap := (heap self)(fields_ref t :=
                           f\<lparr>field_lists := (l @ [varname]) # ls\<rparr> # fs)\<rparr>))))"

text \<open>The loop \<^verbatim>\<open>for freq in use_freq\<close> of \<^verbatim>\<open>update\<close>.\<close>

fun update_loop :: "string list \<Rightarrow> string \<Rightarrow> bool \<Rightarrow> string \<Rightarrow> DiagTable \<Rightarrow> error + DiagTable" where
  "update_loop [] varname is2D vert_grid self = Inr self"
| "update_loop (freq # use_freq) varname is2D vert_grid self =
     (if freq = ''never'' then update_loop use_freq varname is2D vert_grid self
      else if is2D then
        (case append_varname freq varname self of
           Inl e \<Rightarrow> Inl e
         | Inr self1 \<Rightarrow> update_loop use_freq varname is2D vert_grid self1)
      else
        (case (if vert_grid \<in> set [''interpolated'', ''both'']
               then append_varname (freq @ ''_z'') varname self else Inr self) of
           Inl e \<Rightarrow> Inl e
         | Inr self1 \<Rightarrow>
             (case (if vert_grid \<in> set [''native'', ''both'']
                    then append_varname (freq @ ''_native_z'') varname self1 else Inr self1) of
                Inl e \<Rightarrow> Inl e
              | Inr self2 \<Rightarrow> update_loop use_freq varname is2D vert_grid self2)))"

text \<open>\<^verbatim>\<open>DiagTableClass.update\<close>.\<close>

definition update :: "DiagTable \<Rightarrow> string \<Rightarrow> string list \<Rightarrow> bool \<Rightarrow> bool \<Rightarrow> string \<Rightarrow> error + DiagTable" where
  "update self varname frequency is2D lMARBL_output_all vert_grid =
     (let use_freq = (if lMARBL_output_all then [''medium''] else frequency)
      in update_loop use_freq varname is2D vert_grid self)"

subsection \<open>dump\_to\_json\<close>

definition transports :: "string list" where
  "transports = [''volcello'', ''vmo'', ''vhGM'', ''vhml'', ''umo'', ''uhGM'', ''uhml'']"

text \<open>\<^verbatim>\<open>dict.copy()\<close> of a template: a new dictionary with the same values, so the same
  address under \<^verbatim>\<open>"fields"\<close>.\<close>

definition copy :: "template \<Rightarrow> template" where
  "copy t = t"

text \<open>\<^verbatim>\<open>freq[-2:] == "_z"\<close>: the last two characters, or the whole of a shorter string.\<close>

definition ends_with_z :: "string \<Rightarrow> bool" where
  "ends_with_z freq = (drop (length freq - 2) freq = ''_z'')"

text \<open>
  The loop \<^verbatim>\<open>for freq in self._diag_table_dict\<close> of \<^verbatim>\<open>dump_to_json\<close>, over the keys
  in order; \<open>files\<close> is \<^verbatim>\<open>out_dict["Files"]\<close>. The transports are appended through the
  copy, that is, to the object the copy shares with the template of the registry.
\<close>

fun dump_loop ::
  "string list \<Rightarrow> DiagTable \<Rightarrow> (string \<times> template) list \<Rightarrow>
   error + ((string \<times> template) list \<times> DiagTable)" where
  "dump_loop [] self files = Inr (files, self)"
| "dump_loop (freq # rest) self files =
     (case map_of (diag_table_dict self) freq of
        None \<Rightarrow> Inl (KeyError freq)
      | Some t \<Rightarrow>
          (case heap self (fields_ref t) of
             [] \<Rightarrow> Inl IndexError
           | f # fs \<Rightarrow>
               (case field_lists f of
                  [] \<Rightarrow> Inl IndexError
                | l # ls \<Rightarrow>
                    if length l > 0 then
                      (let files' = AList.update freq (copy t) files in
                       if module f = ''ocean_model'' \<and> ends_with_z freq then
                         dump_loop rest
                           (self\<lparr>heap := (heap self)(fields_ref (copy t) :=
                              f\<lparr>field_lists := field_lists f @ [transports]\<rparr> # fs)\<rparr>)
                           files'
                       else dump_loop rest self files')
                    else dump_loop rest self files)))"

text \<open>
  What \<^verbatim>\<open>json.dump\<close> writes for one tier: the template with the list its
  \<^verbatim>\<open>"fields"\<close> points to, read from the store when the document is written.
\<close>

type_synonym document = "(string \<times> template \<times> fields_entry list) list"

datatype outcome = Written string document | WarningNoFile

text \<open>
  Whether \<^verbatim>\<open>open(filename, "w")\<close> and the write of the document succeed. The paths
  that can be written are given by the environment, as a predicate \<open>writable\<close>; the empty
  path can never be opened.
\<close>

definition can_open :: "(string \<Rightarrow> bool) \<Rightarrow> string \<Rightarrow> bool" where
  "can_open writable filename = (filename \<noteq> [] \<and> writable filename)"

text \<open>
  \<^verbatim>\<open>DiagTableClass.dump_to_json\<close>, returning what was written and the object as the
  call leaves it. The file is opened only when some tier was copied into the document, and
  the exception of a failing \<^verbatim>\<open>open\<close> is not caught.
\<close>

definition dump_to_json ::
  "(string \<Rightarrow> bool) \<Rightarrow> DiagTable \<Rightarrow> string \<Rightarrow> error + (outcome \<times> DiagTable)" where
  "dump_to_json writable self filename =
     (case dump_loop (map fst (diag_table_dict self)) self [] of
        Inl e \<Rightarrow> Inl e
      | Inr (files, self') \<Rightarrow>
          if files \<noteq> [] then
            (if can_open writable filename then
               Inr (Written filename
                      (map (\<lambda>(freq, t). (freq, t, heap self' (fields_ref t))) files), self')
             else Inl (OSError filename))
          else Inr (WarningNoFile, self'))"

subsection \<open>The orchestration routine\<close>

text \<open>\<^verbatim>\<open>sub in s\<close> on strings: \<open>sub\<close> occurs in \<open>s\<close> as a contiguous piece.\<close>

fun str_contains :: "string \<Rightarrow> string \<Rightarrow> bool" where
  "str_contains sub [] = (sub = [])"
| "str_contains sub (c # cs) = (take (length sub) (c # cs) = sub \<or> str_contains sub cs)"

text \<open>
  The loop \<^verbatim>\<open>for freq in frequency\<close> of step ii, on the dictionary
  \<^verbatim>\<open>processed_vars\<close> from a frequency to the list of the names seen at it.
\<close>

fun check_duplicates ::
  "string list \<Rightarrow> string \<Rightarrow> (string \<times> string list) list \<Rightarrow> error + (string \<times> string list) list" where
  "check_duplicates [] varname processed_vars = Inr processed_vars"
| "check_duplicates (freq # rest) varname processed_vars =
     (let processed_vars1 =
            (if map_of processed_vars freq = None then AList.update freq [] processed_vars
             else processed_vars)
      in case map_of processed_vars1 freq of
           None \<Rightarrow> Inl (KeyError freq)
         | Some seen \<Rightarrow>
             if varname \<in> set seen then Inl (Fatal DuplicateFrequency)
             else check_duplicates rest varname
                    (AList.update freq (seen @ [varname]) processed_vars1))"

text \<open>
  The loop \<^verbatim>\<open>for line in all_lines\<close>, on the pair of \<^verbatim>\<open>processed_vars\<close> and the
  \<^verbatim>\<open>diag_table\<close> object.
\<close>

fun process_lines ::
  "string list \<Rightarrow> string list \<Rightarrow> string \<Rightarrow> bool \<Rightarrow> bool \<Rightarrow>
   (string \<times> string list) list \<times> DiagTable \<Rightarrow>
   error + ((string \<times> string list) list \<times> DiagTable)" where
  "process_lines [] diag2D_list vert_grid lMARBL_output_all lMARBL_output_alt_co2 state = Inr state"
| "process_lines (line # rest) diag2D_list vert_grid lMARBL_output_all lMARBL_output_alt_co2
       (processed_vars, diag_table) =
     (case parse_line (str_strip line) of
        Inl e \<Rightarrow> Inl e
      | Inr None \<Rightarrow>
          process_lines rest diag2D_list vert_grid lMARBL_output_all lMARBL_output_alt_co2
            (processed_vars, diag_table)
      | Inr (Some (varname, frequency, operator)) \<Rightarrow>
          if \<not> lMARBL_output_alt_co2 \<and> str_contains ''ALT_CO2'' varname then
            process_lines rest diag2D_list vert_grid lMARBL_output_all lMARBL_output_alt_co2
              (processed_vars, diag_table)
          else
            (case check_duplicates frequency varname processed_vars of
               Inl e \<Rightarrow> Inl e
             | Inr processed_vars' \<Rightarrow>
                 (let is2D = (varname \<in> set diag2D_list) in
                  case update diag_table varname frequency is2D lMARBL_output_all vert_grid of
                    Inl e \<Rightarrow> Inl e
                  | Inr diag_table' \<Rightarrow>
                      process_lines rest diag2D_list vert_grid lMARBL_output_all
                        lMARBL_output_alt_co2 (processed_vars', diag_table'))))"

text \<open>
  \<^verbatim>\<open>diagnostics_to_diag_table\<close>. The file system is a map \<open>files\<close> from the path of an
  existing file to its lines, and the predicate \<open>writable\<close> of the paths that can be opened
  for writing; \<open>None\<close> for \<^verbatim>\<open>ecosys_diagnostics_in\<close> is Python's \<^verbatim>\<open>None\<close>.
\<close>

definition diagnostics_to_diag_table ::
  "(string \<Rightarrow> bool) \<Rightarrow> (string \<Rightarrow> string list option) \<Rightarrow> string option \<Rightarrow> string \<Rightarrow>
   string list \<Rightarrow> string \<Rightarrow> bool \<Rightarrow> bool \<Rightarrow> error + outcome" where
  "diagnostics_to_diag_table writable files ecosys_diagnostics_in diag_table_out diag2D_list
       vert_grid lMARBL_output_all lMARBL_output_alt_co2 =
     (case ecosys_diagnostics_in of
        None \<Rightarrow> Inl (Fatal NoInputPath)
      | Some path \<Rightarrow>
          (case files path of
             None \<Rightarrow> Inl (Fatal FileNotFound)
           | Some all_lines \<Rightarrow>
               (case process_lines all_lines diag2D_list vert_grid lMARBL_output_all
                       lMARBL_output_alt_co2 ([], DiagTableClass_init vert_grid) of
                  Inl e \<Rightarrow> Inl e
                | Inr (processed_vars, diag_table) \<Rightarrow>
                    (case dump_to_json writable diag_table diag_table_out of
                       Inl e \<Rightarrow> Inl e
                     | Inr (written, diag_table') \<Rightarrow> Inr written))))"

subsection \<open>Reading a registry\<close>

text \<open>The template of a tier together with the list its \<^verbatim>\<open>"fields"\<close> points to.\<close>

definition resolve :: "DiagTable \<Rightarrow> string \<Rightarrow> (template \<times> fields_entry list) option" where
  "resolve self key =
     map_option (\<lambda>t. (t, heap self (fields_ref t))) (map_of (diag_table_dict self) key)"

text \<open>\<^verbatim>\<open>self._diag_table_dict[key]["fields"][0]["lists"][0]\<close>, where it exists.\<close>

definition variable_list :: "DiagTable \<Rightarrow> string \<Rightarrow> string list option" where
  "variable_list self key =
     (case resolve self key of
        Some (t, f # fs) \<Rightarrow> (case field_lists f of l # ls \<Rightarrow> Some l | [] \<Rightarrow> None)
      | _ \<Rightarrow> None)"

text \<open>A resolved template with names appended to its variable-list, all else as it was.\<close>

fun with_appended :: "string list \<Rightarrow> template \<times> fields_entry list \<Rightarrow> template \<times> fields_entry list" where
  "with_appended names (t, f # fs) =
     (case field_lists f of
        l # ls \<Rightarrow> (t, f\<lparr>field_lists := (l @ names) # ls\<rparr> # fs)
      | [] \<Rightarrow> (t, f # fs))"
| "with_appended names (t, []) = (t, [])"

text \<open>
  The keys one round of the loop of \<^verbatim>\<open>update\<close> appends to, in order, for a frequency.
\<close>

definition placements :: "bool \<Rightarrow> string \<Rightarrow> string \<Rightarrow> string list" where
  "placements is2D vert_grid freq =
     (if freq = ''never'' then []
      else if is2D then [freq]
      else (if vert_grid \<in> set [''interpolated'', ''both''] then [freq @ ''_z''] else []) @
           (if vert_grid \<in> set [''native'', ''both''] then [freq @ ''_native_z''] else []))"

text \<open>Appending one name under each key of a list in turn, stopping at the first error.\<close>

fun append_all :: "string list \<Rightarrow> string \<Rightarrow> DiagTable \<Rightarrow> error + DiagTable" where
  "append_all [] varname self = Inr self"
| "append_all (key # keys) varname self =
     (case append_varname key varname self of
        Inl e \<Rightarrow> Inl e
      | Inr self' \<Rightarrow> append_all keys varname self')"

text \<open>
  The states of a registry built for a vertical-grid selection: the tiers of the constructor,
  no two of them sharing the list under \<^verbatim>\<open>"fields"\<close>, and each such list holding one
  dictionary whose \<^verbatim>\<open>"lists"\<close> is not empty. The constructor establishes this, and
  \<^verbatim>\<open>update\<close> and \<^verbatim>\<open>dump_to_json\<close> keep it.
\<close>

definition cell_ok :: "fields_entry list \<Rightarrow> bool" where
  "cell_ok c = (case c of [f] \<Rightarrow> field_lists f \<noteq> [] | _ \<Rightarrow> False)"

definition store_inv :: "DiagTable \<Rightarrow> bool" where
  "store_inv self =
     (distinct (map (\<lambda>kt. fields_ref (snd kt)) (diag_table_dict self)) \<and>
      list_all (\<lambda>kt. cell_ok (heap self (fields_ref (snd kt)))) (diag_table_dict self))"

definition registry_inv :: "string \<Rightarrow> DiagTable \<Rightarrow> bool" where
  "registry_inv vert_grid self =
     (map fst (diag_table_dict self) = map fst (diag_table_dict (DiagTableClass_init vert_grid)) \<and>
      store_inv self)"

text \<open>
  The test \<^verbatim>\<open>len(self._diag_table_dict[freq]["fields"][0]["lists"][0]) > 0\<close> of
  \<^verbatim>\<open>dump_to_json\<close>, on a tier of the registry.
\<close>

definition nonempty_tier :: "DiagTable \<Rightarrow> string \<Rightarrow> bool" where
  "nonempty_tier self freq = (case variable_list self freq of Some l \<Rightarrow> l \<noteq> [] | None \<Rightarrow> False)"

text \<open>The test for the transports: the module of the tier and the end of its name.\<close>

definition native_z_tier :: "DiagTable \<Rightarrow> string \<Rightarrow> bool" where
  "native_z_tier self freq =
     (case resolve self freq of
        Some (t, f # fs) \<Rightarrow> module f = ''ocean_model'' \<and> ends_with_z freq
      | _ \<Rightarrow> False)"

text \<open>A resolved template with the transports appended to its \<^verbatim>\<open>"lists"\<close>.\<close>

fun with_transports :: "template \<times> fields_entry list \<Rightarrow> template \<times> fields_entry list" where
  "with_transports (t, f # fs) = (t, f\<lparr>field_lists := field_lists f @ [transports]\<rparr> # fs)"
| "with_transports (t, []) = (t, [])"

text \<open>
  What the outcome of \<^verbatim>\<open>dump_to_json\<close> holds under a tier name: the value of
  \<^verbatim>\<open>out_dict["Files"][key]\<close> in the written document, or nothing when the key is absent
  or no file is written.
\<close>

fun serialized :: "outcome \<Rightarrow> string \<Rightarrow> (template \<times> fields_entry list) option" where
  "serialized (Written filename doc) key = map_of doc key"
| "serialized WarningNoFile key = None"

text \<open>The names \<^verbatim>\<open>processed_vars\<close> holds for a frequency: none when the key is absent.\<close>

definition seen_at :: "(string \<times> string list) list \<Rightarrow> string \<Rightarrow> string set" where
  "seen_at processed_vars freq =
     (case map_of processed_vars freq of None \<Rightarrow> {} | Some names \<Rightarrow> set names)"

section \<open>Properties of the string methods\<close>

lemma str_split_not_Nil: "str_split sep s \<noteq> []"
  by (induction s) (auto split: list.splits)

lemma str_split_no_sep: "sep \<notin> set s \<Longrightarrow> str_split sep s = [s]"
  by (induction s) auto

lemma str_split_append_sep:
  "sep \<notin> set a \<Longrightarrow> str_split sep (a @ sep # b) = a # str_split sep b"
  by (induction a) auto

lemma hd_str_split_no_sep: "sep \<notin> set (hd (str_split sep s))"
  by (induction s) (auto split: list.splits)

lemma str_strip_Nil: "str_strip [] = []"
  by (simp add: str_strip_def)

lemma isspace_space: "isspace CHR '' ''"
  by (simp add: isspace_def)

lemma str_strip_id:
  "s \<noteq> [] \<Longrightarrow> \<not> isspace (hd s) \<Longrightarrow> \<not> isspace (last s) \<Longrightarrow> str_strip s = s"
proof -
  assume a: "s \<noteq> []" "\<not> isspace (hd s)" "\<not> isspace (last s)"
  then have 1: "dropWhile isspace s = s"
    by (cases s) auto
  from a have "rev s \<noteq> []" "\<not> isspace (hd (rev s))"
    by (simp_all add: hd_rev)
  then have "dropWhile isspace (rev s) = rev s"
    by (cases "rev s") auto
  with 1 show ?thesis
    by (simp add: str_strip_def)
qed

lemma str_strip_Cons_space: "isspace c \<Longrightarrow> str_strip (c # s) = str_strip s"
  by (simp add: str_strip_def)

lemma str_strip_Cons_nonspace:
  "\<not> isspace c \<Longrightarrow> str_strip (c # s) = c # rev (dropWhile isspace (rev s))"
  by (simp add: str_strip_def dropWhile_append3)

lemma str_strip_cases:
  "str_strip s = (case dropWhile isspace s of [] \<Rightarrow> [] | c # cs \<Rightarrow> c # rev (dropWhile isspace (rev cs)))"
proof (cases "dropWhile isspace s")
  case Nil
  show ?thesis unfolding str_strip_def Nil by simp
next
  case (Cons c cs)
  then have "\<not> isspace c"
    by (metis hd_dropWhile list.sel(1) list.distinct(1))
  with Cons show ?thesis
    by (simp add: str_strip_def dropWhile_append3)
qed

lemma str_strip_idem: "str_strip (str_strip s) = str_strip s"
proof (cases "dropWhile isspace s")
  case Nil
  have "str_strip s = []" unfolding str_strip_def Nil by simp
  then show ?thesis by (simp add: str_strip_Nil)
next
  case (Cons c cs)
  then have c: "\<not> isspace c"
    by (metis hd_dropWhile list.sel(1) list.distinct(1))
  have "str_strip s = c # rev (dropWhile isspace (rev cs))"
    using Cons by (simp add: str_strip_cases)
  then show ?thesis
    using c by (simp add: str_strip_Cons_nonspace)
qed

lemma set_str_strip: "set (str_strip s) \<subseteq> set s"
proof -
  have "set (str_strip s) \<subseteq> set (dropWhile isspace s)"
    unfolding str_strip_def using set_dropWhileD by fastforce
  then show ?thesis
    using set_dropWhileD by fastforce
qed

lemma line_loc_idem: "line_loc (line_loc l) = line_loc l"
proof -
  have "CHR ''#'' \<notin> set (line_loc l)"
    unfolding line_loc_def using set_str_strip hd_str_split_no_sep by blast
  then have "str_split CHR ''#'' (line_loc l) = [line_loc l]"
    by (rule str_split_no_sep)
  then have "line_loc (line_loc l) = str_strip (line_loc l)"
    by (simp add: line_loc_def)
  then show ?thesis
    by (simp add: line_loc_def str_strip_idem)
qed

text \<open>
  Claim C9. Parsing the line that is left once the trailing comment and the surrounding
  whitespace are stripped gives the same result as parsing the raw line: the same triple for
  a valid line, and also the same outcome for an empty or malformed one.
\<close>

theorem parse_line_idempotent: "parse_line (line_loc line_in) = parse_line line_in"
  by (simp add: parse_line_def line_loc_idem)

theorem parse_line_idempotent_witness:
  "parse_line (line_loc '' FOO : low_mean  # note'') = Inr (Some (''FOO'', [''low''], [''mean'']))"
proof -
  have "parse_line '' FOO : low_mean  # note'' = Inr (Some (''FOO'', [''low''], [''mean'']))"
    by (simp add: parse_line_def line_loc_def str_strip_def isspace_def)
  then show ?thesis
    using parse_line_idempotent [of "'' FOO : low_mean  # note''"] by simp
qed

lemma str_strip_snoc_space: "isspace c \<Longrightarrow> str_strip (s @ [c]) = str_strip s"
proof (cases "\<forall>x\<in>set s. isspace x")
  case True
  assume "isspace c"
  with True have "dropWhile isspace (s @ [c]) = []" "dropWhile isspace s = []"
    by simp_all
  then show ?thesis
    by (simp only: str_strip_def)
next
  case False
  assume "isspace c"
  with False show ?thesis
    by (auto simp: str_strip_def dropWhile_append)
qed

lemma entry_hd_last:
  assumes "list_all tag_char f" "list_all tag_char p"
  shows "\<not> isspace (hd (f @ CHR ''_'' # p))" "\<not> isspace (last (f @ CHR ''_'' # p))"
proof -
  have u: "\<not> isspace CHR ''_''" by (simp add: isspace_def)
  show "\<not> isspace (hd (f @ CHR ''_'' # p))"
    using assms(1) u by (cases f) (auto simp: tag_char_def)
  show "\<not> isspace (last (f @ CHR ''_'' # p))"
    using assms(2) u by (cases p rule: rev_cases) (auto simp: tag_char_def)
qed

lemma entry_strip:
  assumes "list_all tag_char f" "list_all tag_char p"
  shows "str_strip (f @ CHR ''_'' # p) = f @ CHR ''_'' # p"
  using entry_hd_last [OF assms] by (intro str_strip_id) simp_all

lemma tag_chars_no_sep:
  assumes "list_all tag_char f"
  shows "CHR '','' \<notin> set f" "CHR ''_'' \<notin> set f"
proof -
  have ok: "tag_char c" if "c \<in> set f" for c
    using assms that unfolding list_all_iff by blast
  show "CHR '','' \<notin> set f"
  proof
    assume "CHR '','' \<in> set f"
    then have "tag_char CHR '',''" by (rule ok)
    then show False by (simp add: tag_char_def)
  qed
  show "CHR ''_'' \<notin> set f"
  proof
    assume "CHR ''_'' \<in> set f"
    then have "tag_char CHR ''_''" by (rule ok)
    then show False by (simp add: tag_char_def)
  qed
qed

lemma entry_split:
  assumes "list_all tag_char f" "list_all tag_char p"
  shows "str_split CHR ''_'' (f @ CHR ''_'' # p) = [f, p]"
  using tag_chars_no_sep(2) [OF assms(1)] tag_chars_no_sep(2) [OF assms(2)]
  by (simp add: str_split_append_sep str_split_no_sep)

lemma join_entries_chars:
  "c \<in> set (join_entries es) \<Longrightarrow>
     c = CHR ''_'' \<or> c = CHR '','' \<or> c = CHR '' '' \<or> (\<exists>e\<in>set es. c \<in> set (fst e) \<or> c \<in> set (snd e))"
  by (induction es rule: join_entries.induct) auto

lemma join_entries_no_sep:
  assumes "list_all tags_ok es"
  shows "CHR ''#'' \<notin> set (join_entries es)" "CHR '':'' \<notin> set (join_entries es)"
proof -
  have ok: "tag_char c" if "e \<in> set es" "c \<in> set (fst e) \<or> c \<in> set (snd e)" for e c
    using assms that unfolding list_all_iff tags_ok_def by blast
  show "CHR ''#'' \<notin> set (join_entries es)"
  proof
    assume "CHR ''#'' \<in> set (join_entries es)"
    from join_entries_chars [OF this]
    obtain e where "e \<in> set es" "CHR ''#'' \<in> set (fst e) \<or> CHR ''#'' \<in> set (snd e)"
      by auto
    then have "tag_char CHR ''#''" by (rule ok)
    then show False by (simp add: tag_char_def)
  qed
  show "CHR '':'' \<notin> set (join_entries es)"
  proof
    assume "CHR '':'' \<in> set (join_entries es)"
    from join_entries_chars [OF this]
    obtain e where "e \<in> set es" "CHR '':'' \<in> set (fst e) \<or> CHR '':'' \<in> set (snd e)"
      by auto
    then have "tag_char CHR '':''" by (rule ok)
    then show False by (simp add: tag_char_def)
  qed
qed

lemma join_entries_last:
  "es \<noteq> [] \<Longrightarrow> list_all tags_ok es \<Longrightarrow>
     join_entries es \<noteq> [] \<and> \<not> isspace (last (join_entries es))"
proof (induction es rule: join_entries.induct)
  case 1
  then show ?case by simp
next
  case (2 f p)
  then show ?case
    using entry_hd_last(2) [of f p] by (simp add: tags_ok_def)
next
  case (3 f p e es)
  then show ?case by simp
qed

lemma entry_no_comma:
  assumes "tags_ok e"
  shows "CHR '','' \<notin> set (CHR '' '' # fst e @ CHR ''_'' # snd e)"
proof -
  have "CHR '','' \<notin> set (fst e)" "CHR '','' \<notin> set (snd e)"
    using assms tag_chars_no_sep(1) unfolding tags_ok_def by blast+
  then show ?thesis by simp
qed

lemma split_join_entries:
  "es \<noteq> [] \<Longrightarrow> list_all tags_ok es \<Longrightarrow>
     str_split CHR '','' (CHR '' '' # join_entries es) =
       map (\<lambda>e. CHR '' '' # fst e @ CHR ''_'' # snd e) es"
proof (induction es rule: join_entries.induct)
  case 1
  then show ?case by simp
next
  case (2 f p)
  then have "tags_ok (f, p)" by simp
  from entry_no_comma [OF this]
  have "str_split CHR '','' (CHR '' '' # f @ CHR ''_'' # p) = [CHR '' '' # f @ CHR ''_'' # p]"
    unfolding fst_conv snd_conv by (rule str_split_no_sep)
  moreover have "CHR '' '' # join_entries [(f, p)] = CHR '' '' # f @ CHR ''_'' # p"
    by simp
  ultimately show ?case
    by (simp del: str_split.simps)
next
  case (3 f p e es)
  then have "tags_ok (f, p)" by simp
  from entry_no_comma [OF this]
  have "str_split CHR '','' ((CHR '' '' # f @ CHR ''_'' # p) @ CHR '','' # (CHR '' '' # join_entries (e # es)))
      = (CHR '' '' # f @ CHR ''_'' # p) # str_split CHR '','' (CHR '' '' # join_entries (e # es))"
    unfolding fst_conv snd_conv by (rule str_split_append_sep)
  moreover have "CHR '' '' # join_entries ((f, p) # e # es)
      = (CHR '' '' # f @ CHR ''_'' # p) @ CHR '','' # (CHR '' '' # join_entries (e # es))"
    by simp
  moreover have "str_split CHR '','' (CHR '' '' # join_entries (e # es)) =
       map (\<lambda>e. CHR '' '' # fst e @ CHR ''_'' # snd e) (e # es)"
    using 3 by simp
  ultimately show ?case
    by (simp del: str_split.simps join_entries.simps)
qed

lemma parse_freq_ops_entries:
  "list_all tags_ok es \<Longrightarrow>
     parse_freq_ops freq op (map (\<lambda>e. CHR '' '' # fst e @ CHR ''_'' # snd e) es) =
       Inr (freq @ map fst es, op @ map snd es)"
proof (induction es arbitrary: freq op)
  case Nil
  then show ?case by simp
next
  case (Cons e es)
  then have t: "list_all tag_char (fst e)" "list_all tag_char (snd e)"
    by (simp_all add: tags_ok_def)
  have "str_strip (CHR '' '' # fst e @ CHR ''_'' # snd e) = fst e @ CHR ''_'' # snd e"
    using entry_strip [OF t] by (simp add: str_strip_Cons_space isspace_space)
  then show ?case
    using Cons entry_split [OF t] by simp
qed

text \<open>
  Claim C8. A declaration line of the shape \<^verbatim>\<open>NAME : FREQ1_OP1, FREQ2_OP2, ...\<close>, with at
  least one entry, a name free of whitespace, \<^verbatim>\<open>#\<close> and \<^verbatim>\<open>:\<close>, and frequency and
  operator tags free of whitespace, \<^verbatim>\<open>#\<close>, \<^verbatim>\<open>:\<close>, \<^verbatim>\<open>,\<close> and \<^verbatim>\<open>_\<close>, parses to the
  name, the frequency tags in the order of the line, and the operator tags in the order of
  the line.
\<close>

theorem parse_line_declaration:
  assumes "list_all name_char name" and "entries \<noteq> []" and "list_all tags_ok entries"
  shows "parse_line (declaration_line name entries) =
           Inr (Some (name, map fst entries, map snd entries))"
proof -
  let ?J = "join_entries entries"
  let ?rest = "CHR '' '' # ?J"
  have J: "?J \<noteq> []" "\<not> isspace (last ?J)"
    using join_entries_last [OF assms(2,3)] by simp_all
  have nosep: "CHR ''#'' \<notin> set ?J" "CHR '':'' \<notin> set ?J"
    using join_entries_no_sep [OF assms(3)] by simp_all
  have name: "CHR ''#'' \<notin> set name" "CHR '':'' \<notin> set name" "\<forall>c\<in>set name. \<not> isspace c"
    using assms(1) by (auto simp: list_all_iff name_char_def)
  have colon: "\<not> isspace CHR '':''" by (simp add: isspace_def)
  have "CHR ''#'' \<notin> set (declaration_line name entries)"
    using nosep name by (simp add: declaration_line_def)
  then have hd: "hd (str_split CHR ''#'' (declaration_line name entries)) = declaration_line name entries"
    by (simp add: str_split_no_sep)
  have strip_name: "str_strip (name @ '' '') = name"
  proof (cases "name = []")
    case True
    then show ?thesis by (simp add: str_strip_Cons_space isspace_space str_strip_Nil)
  next
    case False
    then have "str_strip name = name"
      using name(3) by (intro str_strip_id) simp_all
    then show ?thesis
      using str_strip_snoc_space [OF isspace_space, of name] by simp
  qed
  have loc: "str_split CHR '':'' (line_loc (declaration_line name entries)) = [str_strip (name @ '' '') @ (if name = [] then [] else '' ''), ?rest]"
  proof (cases "name = []")
    case True
    have "str_strip (CHR '':'' # ?rest) = CHR '':'' # ?rest"
      using J colon by (intro str_strip_id) simp_all
    then have "line_loc (declaration_line name entries) = CHR '':'' # ?rest"
      using True hd by (simp add: line_loc_def declaration_line_def str_strip_Cons_space isspace_space)
    then show ?thesis
      using True nosep by (simp add: str_split_no_sep str_strip_Cons_space isspace_space str_strip_Nil)
  next
    case False
    then have "str_strip (declaration_line name entries) = declaration_line name entries"
      using J name(3) by (intro str_strip_id) (simp_all add: declaration_line_def)
    then have l: "line_loc (declaration_line name entries) = (name @ '' '') @ CHR '':'' # ?rest"
      using hd by (simp add: line_loc_def) (simp add: declaration_line_def)
    have "CHR '':'' \<notin> set (name @ '' '')"
      using name by simp
    then have "str_split CHR '':'' ((name @ '' '') @ CHR '':'' # ?rest) = (name @ '' '') # str_split CHR '':'' ?rest"
      by (rule str_split_append_sep)
    then show ?thesis
      using False l nosep strip_name by (simp add: str_split_no_sep)
  qed
  have nonempty: "line_loc (declaration_line name entries) \<noteq> []"
    using loc by auto
  have n0: "str_strip (str_strip (name @ '' '') @ (if name = [] then [] else '' '')) = name"
    using strip_name by (cases "name = []") (simp_all add: str_strip_Nil)
  have "parse_freq_ops [] [] (str_split CHR '','' ?rest) = Inr (map fst entries, map snd entries)"
    using split_join_entries [OF assms(2,3)] parse_freq_ops_entries [OF assms(3), of "[]" "[]"]
    by simp
  then show ?thesis
    using loc nonempty n0 by (simp add: parse_line_def)
qed

theorem parse_line_declaration_witness:
  "parse_line ''FOO : low_mean'' = Inr (Some (''FOO'', [''low''], [''mean''])) \<and>
   parse_line ''FOO : low_mean, high_inst'' =
     Inr (Some (''FOO'', [''low'', ''high''], [''mean'', ''inst'']))"
proof -
  have n: "list_all name_char ''FOO''"
    by (simp add: name_char_def isspace_def)
  have t1: "list_all tags_ok [(''low'', ''mean'')]"
    by (simp add: tags_ok_def tag_char_def isspace_def)
  have t2: "list_all tags_ok [(''low'', ''mean''), (''high'', ''inst'')]"
    by (simp add: tags_ok_def tag_char_def isspace_def)
  have d1: "declaration_line ''FOO'' [(''low'', ''mean'')] = ''FOO : low_mean''"
    by (simp add: declaration_line_def)
  have d2: "declaration_line ''FOO'' [(''low'', ''mean''), (''high'', ''inst'')] =
      ''FOO : low_mean, high_inst''"
    by (simp add: declaration_line_def)
  show ?thesis
    using parse_line_declaration [OF n _ t1] parse_line_declaration [OF n _ t2]
    unfolding d1 d2 by simp
qed

lemma parse_freq_ops_bad:
  "\<exists>entry\<in>set es. length (str_split CHR ''_'' (str_strip entry)) \<noteq> 2 \<Longrightarrow>
     parse_freq_ops freq op es = Inl (Fatal NoFrequencyOperator)"
  by (induction es arbitrary: freq op) (auto simp: Let_def)

text \<open>
  Claim C6. A line that is not blank once its comment is stripped, and that does not split
  into exactly two parts on \<^verbatim>\<open>:\<close>, or one of whose comma-separated entries does not split
  into exactly two parts on \<^verbatim>\<open>_\<close>, ends the process through \<^verbatim>\<open>sys.exit(1)\<close>: the
  first check reports a missing variable name, the second a missing frequency or operator,
  and the exit status is not zero.
\<close>

theorem parse_line_malformed:
  assumes "line_loc line_in \<noteq> []"
    and "length (str_split CHR '':'' (line_loc line_in)) \<noteq> 2 \<or>
         (\<exists>entry\<in>set (str_split CHR '','' (str_split CHR '':'' (line_loc line_in) ! 1)).
            length (str_split CHR ''_'' (str_strip entry)) \<noteq> 2)"
  shows "parse_line line_in =
           Inl (Fatal (if length (str_split CHR '':'' (line_loc line_in)) \<noteq> 2
                       then NoVariableName else NoFrequencyOperator)) \<and>
         (\<forall>e. parse_line line_in = Inl e \<longrightarrow> exit_status e \<noteq> 0)"
proof (cases "length (str_split CHR '':'' (line_loc line_in)) \<noteq> 2")
  case True
  then show ?thesis
    using assms(1) by (simp add: parse_line_def)
next
  case False
  with assms(2) have "parse_freq_ops [] [] (str_split CHR '','' (str_split CHR '':'' (line_loc line_in) ! 1))
      = Inl (Fatal NoFrequencyOperator)"
    by (intro parse_freq_ops_bad) simp
  with False show ?thesis
    using assms(1) by (simp add: parse_line_def)
qed

theorem parse_line_malformed_witness:
  "parse_line ''FOO low_mean'' = Inl (Fatal NoVariableName) \<and>
   parse_line ''FOO : lowmean'' = Inl (Fatal NoFrequencyOperator)"
proof -
  have a1: "line_loc ''FOO low_mean'' \<noteq> []"
    by (simp add: line_loc_def str_strip_def isspace_def)
  have a2: "length (str_split CHR '':'' (line_loc ''FOO low_mean'')) \<noteq> 2"
    by (simp add: line_loc_def str_strip_def isspace_def)
  have b1: "line_loc ''FOO : lowmean'' \<noteq> []"
    by (simp add: line_loc_def str_strip_def isspace_def)
  have b2: "length (str_split CHR '':'' (line_loc ''FOO : lowmean'')) = 2"
    by (simp add: line_loc_def str_strip_def isspace_def)
  have b3: "\<exists>entry\<in>set (str_split CHR '','' (str_split CHR '':'' (line_loc ''FOO : lowmean'') ! 1)).
      length (str_split CHR ''_'' (str_strip entry)) \<noteq> 2"
    by (simp add: line_loc_def str_strip_def isspace_def)
  have 1: "parse_line ''FOO low_mean'' = Inl (Fatal NoVariableName)"
    using parse_line_malformed [OF a1 disjI1, OF a2] a2 by (simp only: if_True simp_thms)
  have 2: "parse_line ''FOO : lowmean'' = Inl (Fatal NoFrequencyOperator)"
    using parse_line_malformed [OF b1 disjI2, OF b3] b2 by (simp only: if_False simp_thms)
  show ?thesis using 1 2 by simp
qed

section \<open>The template registry: update\<close>

lemma addr_distinct:
  assumes "distinct (map (\<lambda>kt. fields_ref (snd kt)) d)"
    and "map_of d k = Some t" and "map_of d k' = Some t'" and "k \<noteq> k'"
  shows "fields_ref t \<noteq> fields_ref t'"
proof
  assume eq: "fields_ref t = fields_ref t'"
  have mem: "(k, t) \<in> set d" "(k', t') \<in> set d"
    using assms(2,3) by (auto dest: map_of_SomeD)
  have "inj_on (\<lambda>kt. fields_ref (snd kt)) (set d)"
    using assms(1) by (simp add: distinct_map)
  moreover have "(\<lambda>kt. fields_ref (snd kt)) (k, t) = (\<lambda>kt. fields_ref (snd kt)) (k', t')"
    using eq by simp
  ultimately have "(k, t) = (k', t')"
    using mem by (rule inj_onD)
  then show False using assms(4) by simp
qed

lemma with_appended_Nil: "with_appended [] x = x"
proof (cases x)
  case (Pair t c)
  then show ?thesis by (cases c) (auto split: list.splits)
qed

lemma with_appended_twice:
  "with_appended b (with_appended a x) = with_appended (a @ b) x"
proof (cases x)
  case (Pair t c)
  then show ?thesis by (cases c) (auto split: list.splits)
qed

lemma cell_ok_cases:
  "cell_ok c \<Longrightarrow> \<exists>f l ls. c = [f] \<and> field_lists f = l # ls"
  by (auto simp: cell_ok_def neq_Nil_conv split: list.splits)

lemma append_varname_ok:
  assumes inv: "store_inv self" and key: "map_of (diag_table_dict self) key = Some t"
  shows "\<exists>self'. append_varname key v self = Inr self' \<and>
           diag_table_dict self' = diag_table_dict self \<and> store_inv self' \<and>
           (\<forall>k. resolve self' k =
              (if k = key then map_option (with_appended [v]) (resolve self k)
               else resolve self k))"
proof -
  let ?d = "diag_table_dict self"
  have dist: "distinct (map (\<lambda>kt. fields_ref (snd kt)) ?d)"
    and cells: "\<forall>kt\<in>set ?d. cell_ok (heap self (fields_ref (snd kt)))"
    using inv by (simp_all add: store_inv_def list_all_iff)
  have "(key, t) \<in> set ?d" using key by (rule map_of_SomeD)
  then have "cell_ok (heap self (fields_ref t))" using cells by fastforce
  then obtain f l ls where c: "heap self (fields_ref t) = [f]" "field_lists f = l # ls"
    using cell_ok_cases by blast
  let ?self' = "self\<lparr>heap := (heap self)(fields_ref t := [f\<lparr>field_lists := (l @ [v]) # ls\<rparr>])\<rparr>"
  have run: "append_varname key v self = Inr ?self'"
    using key c by (simp add: append_varname_def)
  have okc: "cell_ok [f\<lparr>field_lists := (l @ [v]) # ls\<rparr>]"
    by (simp add: cell_ok_def)
  have inv': "store_inv ?self'"
    using dist cells okc by (simp add: store_inv_def list_all_iff)
  have res: "resolve ?self' k =
      (if k = key then map_option (with_appended [v]) (resolve self k) else resolve self k)" for k
  proof (cases "k = key")
    case True
    then show ?thesis using key c by (simp add: resolve_def)
  next
    case False
    show ?thesis
    proof (cases "map_of ?d k")
      case None
      then show ?thesis using False by (simp add: resolve_def)
    next
      case (Some t')
      then have "fields_ref t' \<noteq> fields_ref t"
        using addr_distinct [OF dist Some key False] by simp
      then show ?thesis using False Some by (simp add: resolve_def)
    qed
  qed
  show ?thesis
    using run inv' res by (intro exI [of _ ?self']) simp
qed

lemma append_all_ok:
  "store_inv self \<Longrightarrow> set keys \<subseteq> fst ` set (diag_table_dict self) \<Longrightarrow>
     \<exists>self'. append_all keys v self = Inr self' \<and>
       diag_table_dict self' = diag_table_dict self \<and> store_inv self' \<and>
       (\<forall>k. resolve self' k =
          map_option (with_appended (replicate (count_list keys k) v)) (resolve self k))"
proof (induction keys arbitrary: self)
  case Nil
  have "map_option (with_appended []) x = x" for x :: "(template \<times> fields_entry list) option"
    by (cases x) (simp_all add: with_appended_Nil)
  then show ?case using Nil by simp
next
  case (Cons key keys)
  then have "key \<in> fst ` set (diag_table_dict self)" by simp
  then obtain t where t: "map_of (diag_table_dict self) key = Some t"
    by (metis map_of_eq_None_iff not_Some_eq)
  from append_varname_ok [OF Cons.prems(1) t, of v]
  obtain s1 where s1: "append_varname key v self = Inr s1"
    "diag_table_dict s1 = diag_table_dict self" "store_inv s1"
    "\<And>k. resolve s1 k =
       (if k = key then map_option (with_appended [v]) (resolve self k) else resolve self k)"
    by blast
  have "set keys \<subseteq> fst ` set (diag_table_dict s1)"
    using Cons.prems(2) s1(2) by simp
  from Cons.IH [OF s1(3) this]
  obtain s2 where s2: "append_all keys v s1 = Inr s2"
    "diag_table_dict s2 = diag_table_dict s1" "store_inv s2"
    "\<And>k. resolve s2 k =
       map_option (with_appended (replicate (count_list keys k) v)) (resolve s1 k)"
    by blast
  have "resolve s2 k =
      map_option (with_appended (replicate (count_list (key # keys) k) v)) (resolve self k)" for k
  proof (cases "k = key")
    case True
    have "v # replicate (count_list keys key) v = replicate (count_list keys key) v @ [v]"
      by (simp add: replicate_append_same)
    then show ?thesis
      using True s2(4) [of k] s1(4) [of k]
      by (simp add: option.map_comp comp_def with_appended_twice)
  next
    case False
    then show ?thesis using s2(4) [of k] s1(4) [of k] by simp
  qed
  then show ?case using s1 s2 by simp
qed

lemma append_all_append:
  "append_all (a @ b) v self =
     (case append_all a v self of Inl e \<Rightarrow> Inl e | Inr s \<Rightarrow> append_all b v s)"
  by (induction a arbitrary: self) (auto split: sum.splits)

lemma update_loop_append_all:
  "update_loop freqs v is2D vg self = append_all (concat (map (placements is2D vg) freqs)) v self"
proof (induction freqs arbitrary: self)
  case Nil
  then show ?case by simp
next
  case (Cons freq freqs)
  have "update_loop (freq # freqs) v is2D vg self =
      (case append_all (placements is2D vg freq) v self of
         Inl e \<Rightarrow> Inl e
       | Inr s \<Rightarrow> update_loop freqs v is2D vg s)"
    by (simp add: placements_def split: sum.splits)
  also have "\<dots> = append_all (placements is2D vg freq @ concat (map (placements is2D vg) freqs)) v self"
    by (simp add: append_all_append Cons.IH cong: sum.case_cong)
  finally show ?case
    by (simp del: update_loop.simps)
qed


lemma tiers:
  "map fst (diag_table_dict (DiagTableClass_init vert_grid)) =
     [''medium''] @
     (if vert_grid \<in> set [''interpolated'', ''both''] then [''medium_z''] else []) @
     (if vert_grid \<in> set [''native'', ''both''] then [''medium_native_z''] else []) @
     [''high''] @
     (if vert_grid \<in> set [''interpolated'', ''both''] then [''high_z''] else []) @
     (if vert_grid \<in> set [''native'', ''both''] then [''high_native_z''] else []) @
     [''low''] @
     (if vert_grid \<in> set [''interpolated'', ''both''] then [''low_z''] else []) @
     (if vert_grid \<in> set [''native'', ''both''] then [''low_native_z''] else [])"
proof -
  consider "vert_grid = ''both''" | "vert_grid = ''native''" | "vert_grid = ''interpolated''"
    | "vert_grid \<noteq> ''both''" "vert_grid \<noteq> ''native''" "vert_grid \<noteq> ''interpolated''"
    by blast
  then show ?thesis
  proof cases
    case 1
    then show ?thesis
      by (simp add: DiagTableClass_init_def set_template_def dict_template_def if_then_def Let_def)
  next
    case 2
    then show ?thesis
      by (simp add: DiagTableClass_init_def set_template_def dict_template_def if_then_def Let_def)
  next
    case 3
    then show ?thesis
      by (simp add: DiagTableClass_init_def set_template_def dict_template_def if_then_def Let_def)
  next
    case 4
    then show ?thesis
      by (simp add: DiagTableClass_init_def set_template_def dict_template_def if_then_def Let_def)
  qed
qed

lemma init_store_inv: "store_inv (DiagTableClass_init vert_grid)"
proof -
  consider "vert_grid = ''both''" | "vert_grid = ''native''" | "vert_grid = ''interpolated''"
    | "vert_grid \<noteq> ''both''" "vert_grid \<noteq> ''native''" "vert_grid \<noteq> ''interpolated''"
    by blast
  then show ?thesis
  proof cases
    case 1
    then show ?thesis
      by (simp add: store_inv_def cell_ok_def DiagTableClass_init_def set_template_def
          dict_template_def if_then_def Let_def)
  next
    case 2
    then show ?thesis
      by (simp add: store_inv_def cell_ok_def DiagTableClass_init_def set_template_def
          dict_template_def if_then_def Let_def)
  next
    case 3
    then show ?thesis
      by (simp add: store_inv_def cell_ok_def DiagTableClass_init_def set_template_def
          dict_template_def if_then_def Let_def)
  next
    case 4
    then show ?thesis
      by (simp add: store_inv_def cell_ok_def DiagTableClass_init_def set_template_def
          dict_template_def if_then_def Let_def)
  qed
qed

lemma init_registry_inv: "registry_inv vert_grid (DiagTableClass_init vert_grid)"
  by (simp add: registry_inv_def init_store_inv)


lemma registry_keys:
  "registry_inv vert_grid self \<Longrightarrow>
     fst ` set (diag_table_dict self) =
       set (map fst (diag_table_dict (DiagTableClass_init vert_grid)))"
  by (metis registry_inv_def set_map)

lemma update_loop_effect:
  assumes inv: "registry_inv vert_grid self"
    and keys: "set (concat (map (placements is2D vg) use_freq)) \<subseteq>
                 set (map fst (diag_table_dict (DiagTableClass_init vert_grid)))"
  shows "\<exists>self'. update_loop use_freq v is2D vg self = Inr self' \<and>
           registry_inv vert_grid self' \<and>
           (\<forall>k. resolve self' k =
              map_option
                (with_appended (replicate (count_list (concat (map (placements is2D vg) use_freq)) k) v))
                (resolve self k))"
proof -
  have s: "store_inv self" using inv by (simp add: registry_inv_def)
  have "set (concat (map (placements is2D vg) use_freq)) \<subseteq> fst ` set (diag_table_dict self)"
    using keys registry_keys [OF inv] by simp
  from append_all_ok [OF s this, of v]
  obtain self' where r: "append_all (concat (map (placements is2D vg) use_freq)) v self = Inr self'"
    "diag_table_dict self' = diag_table_dict self" "store_inv self'"
    "\<And>k. resolve self' k =
       map_option
         (with_appended (replicate (count_list (concat (map (placements is2D vg) use_freq)) k) v))
         (resolve self k)"
    by blast
  have "registry_inv vert_grid self'"
    using inv r(2,3) by (simp add: registry_inv_def)
  then show ?thesis
    using r(1,4) by (simp add: update_loop_append_all)
qed

lemma count_placements_2D:
  "count_list (concat (map (placements True vg) freqs)) k =
     (if k = ''never'' then 0 else count_list freqs k)"
  by (induction freqs) (simp_all add: placements_def)

lemma tier_closed:
  assumes "f \<in> {''low'', ''medium'', ''high'', ''never''}" "tier \<in> {''low'', ''medium'', ''high''}"
  shows "f \<noteq> tier @ ''_z''" "f \<noteq> tier @ ''_native_z''" "f @ ''_z'' \<noteq> tier"
    "f @ ''_native_z'' \<noteq> tier" "f @ ''_native_z'' \<noteq> tier @ ''_z''"
    "f @ ''_z'' \<noteq> tier @ ''_native_z''" "tier \<noteq> ''never''"
  using assms by auto

lemma count_placements_3D_both:
  assumes "set freqs \<subseteq> {''low'', ''medium'', ''high'', ''never''}"
    and "tier \<in> {''low'', ''medium'', ''high''}"
  shows "count_list (concat (map (placements False ''both'') freqs)) tier = 0"
    and "count_list (concat (map (placements False ''both'') freqs)) (tier @ ''_z'') =
           count_list freqs tier"
    and "count_list (concat (map (placements False ''both'') freqs)) (tier @ ''_native_z'') =
           count_list freqs tier"
  using assms(1)
proof (induction freqs)
  case Nil
  {
    case 1 show ?case by simp
  next
    case 2 show ?case by simp
  next
    case 3 show ?case by simp
  }
next
  case (Cons f freqs)
  {
    case 1
    then have f: "f \<in> {''low'', ''medium'', ''high'', ''never''}" by simp
    show ?case
      using Cons(1) 1 tier_closed [OF f assms(2)] by (simp add: placements_def)
  next
    case 2
    then have f: "f \<in> {''low'', ''medium'', ''high'', ''never''}" by simp
    show ?case
      using Cons(2) 2 tier_closed [OF f assms(2)] by (simp add: placements_def)
  next
    case 3
    then have f: "f \<in> {''low'', ''medium'', ''high'', ''never''}" by simp
    show ?case
      using Cons(3) 3 tier_closed [OF f assms(2)] by (simp add: placements_def)
  }
qed


lemma map_option_with_appended_Nil: "map_option (with_appended []) x = x"
  by (cases x) (simp_all add: with_appended_Nil)

lemma placements_both_keys:
  assumes "f \<in> {''low'', ''medium'', ''high'', ''never''}"
  shows "set (placements is2D ''both'' f) \<subseteq>
           set (map fst (diag_table_dict (DiagTableClass_init ''both'')))"
  using assms unfolding tiers by (auto simp: placements_def)

text \<open>
  Claim C1. On a registry built for the vertical-grid selection \<^verbatim>\<open>both\<close>, a call of
  \<^verbatim>\<open>update\<close> with \<^verbatim>\<open>lMARBL_output_all\<close> false, selection \<^verbatim>\<open>both\<close> and frequency tags
  of the tier set (\<^verbatim>\<open>low\<close>, \<^verbatim>\<open>medium\<close>, \<^verbatim>\<open>high\<close>, \<^verbatim>\<open>never\<close>) returns, and for every
  tier: a 2D name is appended to the variable-list of the base template once per occurrence
  of the tier in the list, the \<^verbatim>\<open>_z\<close> and \<^verbatim>\<open>_native_z\<close> templates staying as they were; a
  3D name is appended so to the \<^verbatim>\<open>_z\<close> and the \<^verbatim>\<open>_native_z\<close> template, the base template
  staying as it was. Nothing but the variable-list changes in a template that is appended to.
\<close>

theorem update_both_grids:
  assumes inv: "registry_inv ''both'' self"
    and freqs: "set frequency \<subseteq> {''low'', ''medium'', ''high'', ''never''}"
    and tier: "tier \<in> {''low'', ''medium'', ''high''}"
  shows "\<exists>self'. update self varname frequency is2D False ''both'' = Inr self' \<and>
           registry_inv ''both'' self' \<and>
           (if is2D then
              resolve self' tier =
                map_option (with_appended (replicate (count_list frequency tier) varname))
                  (resolve self tier) \<and>
              resolve self' (tier @ ''_z'') = resolve self (tier @ ''_z'') \<and>
              resolve self' (tier @ ''_native_z'') = resolve self (tier @ ''_native_z'')
            else
              resolve self' tier = resolve self tier \<and>
              resolve self' (tier @ ''_z'') =
                map_option (with_appended (replicate (count_list frequency tier) varname))
                  (resolve self (tier @ ''_z'')) \<and>
              resolve self' (tier @ ''_native_z'') =
                map_option (with_appended (replicate (count_list frequency tier) varname))
                  (resolve self (tier @ ''_native_z'')))"
proof -
  let ?keys = "concat (map (placements is2D ''both'') frequency)"
  have "set ?keys \<subseteq> set (map fst (diag_table_dict (DiagTableClass_init ''both'')))"
  proof
    fix k
    assume "k \<in> set ?keys"
    then obtain f where f: "f \<in> set frequency" "k \<in> set (placements is2D ''both'' f)"
      by auto
    then have "f \<in> {''low'', ''medium'', ''high'', ''never''}"
      using freqs by blast
    from placements_both_keys [OF this, of is2D] f(2)
    show "k \<in> set (map fst (diag_table_dict (DiagTableClass_init ''both'')))"
      by blast
  qed
  from update_loop_effect [OF inv this, of varname]
  obtain self' where r: "update_loop frequency varname is2D ''both'' self = Inr self'"
    "registry_inv ''both'' self'"
    "\<And>k. resolve self' k =
       map_option (with_appended (replicate (count_list ?keys k) varname)) (resolve self k)"
    by blast
  have run: "update self varname frequency is2D False ''both'' = Inr self'"
    using r(1) by (simp add: update_def)
  show ?thesis
  proof (cases is2D)
    case True
    have "tier @ ''_z'' \<notin> set frequency" "tier @ ''_native_z'' \<notin> set frequency"
      using freqs tier_closed(1,2) [OF _ tier] by blast+
    then have "count_list frequency (tier @ ''_z'') = 0"
      "count_list frequency (tier @ ''_native_z'') = 0"
      by (simp_all add: count_list_0_iff)
    moreover have "tier @ ''_z'' \<noteq> ''never''" "tier @ ''_native_z'' \<noteq> ''never''" "tier \<noteq> ''never''"
      using tier by auto
    ultimately show ?thesis
      using True run r(2) r(3) [of tier] r(3) [of "tier @ ''_z''"] r(3) [of "tier @ ''_native_z''"]
      by (simp add: count_placements_2D map_option_with_appended_Nil)
  next
    case False
    then show ?thesis
      using run r(2) r(3) [of tier] r(3) [of "tier @ ''_z''"] r(3) [of "tier @ ''_native_z''"]
        count_placements_3D_both [OF freqs tier]
      by (simp add: map_option_with_appended_Nil)
  qed
qed

lemma variable_list_with_appended:
  "resolve self' k = map_option (with_appended names) (resolve self k) \<Longrightarrow>
     variable_list self' k = map_option (\<lambda>l. l @ names) (variable_list self k)"
  by (auto simp: variable_list_def split: option.splits list.splits)

lemma variable_list_same:
  "resolve self' k = resolve self k \<Longrightarrow> variable_list self' k = variable_list self k"
  by (simp add: variable_list_def)

theorem update_both_grids_witness:
  "\<exists>self'. update (DiagTableClass_init ''both'') ''FOO'' [''low''] False False ''both'' = Inr self' \<and>
     variable_list self' ''low'' = Some [] \<and>
     variable_list self' ''low_z'' = Some [''FOO''] \<and>
     variable_list self' ''low_native_z'' = Some [''FOO'']"
proof -
  have v: "variable_list (DiagTableClass_init ''both'') ''low'' = Some []"
    "variable_list (DiagTableClass_init ''both'') ''low_z'' = Some []"
    "variable_list (DiagTableClass_init ''both'') ''low_native_z'' = Some []"
    by (simp_all add: variable_list_def resolve_def DiagTableClass_init_def set_template_def
        dict_template_def if_then_def Let_def)
  from update_both_grids [OF init_registry_inv, of "[''low'']" "''low''" "''FOO''" False]
  obtain self' where r: "update (DiagTableClass_init ''both'') ''FOO'' [''low''] False False ''both'' = Inr self'"
    "resolve self' ''low'' = resolve (DiagTableClass_init ''both'') ''low''"
    "resolve self' ''low_z'' =
       map_option (with_appended [''FOO'']) (resolve (DiagTableClass_init ''both'') ''low_z'')"
    "resolve self' ''low_native_z'' =
       map_option (with_appended [''FOO'']) (resolve (DiagTableClass_init ''both'') ''low_native_z'')"
    by auto
  show ?thesis
    using r(1) variable_list_same [OF r(2)] variable_list_with_appended [OF r(3)]
      variable_list_with_appended [OF r(4)] v
    by simp
qed

lemma placements_medium_keys:
  "set (concat (map (placements is2D vert_grid) [''medium''])) \<subseteq>
     set (map fst (diag_table_dict (DiagTableClass_init vert_grid)))"
  unfolding tiers by (auto simp: placements_def)

lemma count_placements_medium:
  "count_list (concat (map (placements is2D vert_grid) [''medium''])) key =
     (if (is2D \<and> key = ''medium'') \<or>
         (\<not> is2D \<and> vert_grid \<in> set [''interpolated'', ''both''] \<and> key = ''medium_z'') \<or>
         (\<not> is2D \<and> vert_grid \<in> set [''native'', ''both''] \<and> key = ''medium_native_z'')
      then 1 else 0)"
  by (auto simp: placements_def)

text \<open>
  Claim C3. With \<^verbatim>\<open>lMARBL_output_all\<close> true, on a registry built for the vertical-grid
  selection the call is made with, \<^verbatim>\<open>update\<close> returns, its result is the same for every
  frequency list, and the name is appended to the variable-list of the \<^verbatim>\<open>medium\<close> template
  when the variable is 2D, and of the \<^verbatim>\<open>medium_z\<close> and \<^verbatim>\<open>medium_native_z\<close> templates
  that the selection includes when it is 3D. Every other template stays as it was.
\<close>

theorem update_output_all:
  assumes inv: "registry_inv vert_grid self"
  shows "\<exists>self'. update self varname frequency is2D True vert_grid = Inr self' \<and>
           update self varname other_frequency is2D True vert_grid = Inr self' \<and>
           registry_inv vert_grid self' \<and>
           (\<forall>key. resolve self' key =
              (if (is2D \<and> key = ''medium'') \<or>
                  (\<not> is2D \<and> vert_grid \<in> set [''interpolated'', ''both''] \<and> key = ''medium_z'') \<or>
                  (\<not> is2D \<and> vert_grid \<in> set [''native'', ''both''] \<and> key = ''medium_native_z'')
               then map_option (with_appended [varname]) (resolve self key)
               else resolve self key))"
proof -
  from update_loop_effect [OF inv placements_medium_keys, where v = varname and is2D = is2D]
  obtain self' where r: "update_loop [''medium''] varname is2D vert_grid self = Inr self'"
    "registry_inv vert_grid self'"
    "\<And>k. resolve self' k =
       map_option
         (with_appended
            (replicate (count_list (concat (map (placements is2D vert_grid) [''medium''])) k) varname))
         (resolve self k)"
    by blast
  have run: "update self varname f is2D True vert_grid = Inr self'" for f
    using r(1) by (simp add: update_def del: update_loop.simps)
  have res: "resolve self' key =
      (if (is2D \<and> key = ''medium'') \<or>
          (\<not> is2D \<and> vert_grid \<in> set [''interpolated'', ''both''] \<and> key = ''medium_z'') \<or>
          (\<not> is2D \<and> vert_grid \<in> set [''native'', ''both''] \<and> key = ''medium_native_z'')
       then map_option (with_appended [varname]) (resolve self key)
       else resolve self key)" for key
    unfolding r(3) [of key] count_placements_medium
    by (auto simp: map_option_with_appended_Nil)
  show ?thesis
    using run r(2) res by blast
qed

theorem update_output_all_witness:
  "\<exists>self'. update (DiagTableClass_init ''native'') ''FOO'' [''low'', ''high''] False True ''native'' = Inr self' \<and>
     variable_list self' ''medium_native_z'' = Some [''FOO''] \<and>
     variable_list self' ''medium'' = Some [] \<and>
     variable_list self' ''low_native_z'' = Some [] \<and>
     variable_list self' ''high_native_z'' = Some []"
proof -
  have v: "variable_list (DiagTableClass_init ''native'') ''medium_native_z'' = Some []"
    "variable_list (DiagTableClass_init ''native'') ''medium'' = Some []"
    "variable_list (DiagTableClass_init ''native'') ''low_native_z'' = Some []"
    "variable_list (DiagTableClass_init ''native'') ''high_native_z'' = Some []"
    by (simp_all add: variable_list_def resolve_def DiagTableClass_init_def set_template_def
        dict_template_def if_then_def Let_def)
  from update_output_all [OF init_registry_inv, of "''native''" "''FOO''" "[''low'', ''high'']" False]
  obtain self' where r: "update (DiagTableClass_init ''native'') ''FOO'' [''low'', ''high''] False True ''native'' = Inr self'"
    "\<And>key. resolve self' key =
       (if (False \<and> key = ''medium'') \<or>
           (\<not> False \<and> ''native'' \<in> set [''interpolated'', ''both''] \<and> key = ''medium_z'') \<or>
           (\<not> False \<and> ''native'' \<in> set [''native'', ''both''] \<and> key = ''medium_native_z'')
        then map_option (with_appended [''FOO'']) (resolve (DiagTableClass_init ''native'') key)
        else resolve (DiagTableClass_init ''native'') key)"
    by blast
  have 1: "resolve self' ''medium_native_z'' =
      map_option (with_appended [''FOO'']) (resolve (DiagTableClass_init ''native'') ''medium_native_z'')"
    using r(2) [of "''medium_native_z''"] by simp
  have 2: "resolve self' ''medium'' = resolve (DiagTableClass_init ''native'') ''medium''"
    using r(2) [of "''medium''"] by simp
  have 3: "resolve self' ''low_native_z'' = resolve (DiagTableClass_init ''native'') ''low_native_z''"
    using r(2) [of "''low_native_z''"] by simp
  have 4: "resolve self' ''high_native_z'' = resolve (DiagTableClass_init ''native'') ''high_native_z''"
    using r(2) [of "''high_native_z''"] by simp
  show ?thesis
    using r(1) variable_list_with_appended [OF 1] variable_list_same [OF 2]
      variable_list_same [OF 3] variable_list_same [OF 4] v
    by simp
qed

section \<open>The template registry: dump\<close>

lemmas eval_registry = DiagTableClass_init_def set_template_def dict_template_def if_then_def
  Let_def update_def append_varname_def resolve_def variable_list_def nonempty_tier_def
  native_z_tier_def store_inv_def cell_ok_def registry_inv_def ends_with_z_def

lemma update_fresh_key:
  "k \<notin> fst ` set al \<Longrightarrow> AList.update k v al = al @ [(k, v)]"
  by (induction al) auto

lemma add_transports_ok:
  assumes inv: "store_inv self" and key: "map_of (diag_table_dict self) key = Some t"
    and cell: "heap self (fields_ref t) = f # fs"
  defines "self1 \<equiv> self\<lparr>heap := (heap self)(fields_ref t :=
                      f\<lparr>field_lists := field_lists f @ [transports]\<rparr> # fs)\<rparr>"
  shows "store_inv self1" and "diag_table_dict self1 = diag_table_dict self"
    and "resolve self1 k =
           (if k = key then map_option with_transports (resolve self k) else resolve self k)"
proof -
  let ?d = "diag_table_dict self"
  have dist: "distinct (map (\<lambda>kt. fields_ref (snd kt)) ?d)"
    and cells: "\<forall>kt\<in>set ?d. cell_ok (heap self (fields_ref (snd kt)))"
    using inv by (simp_all add: store_inv_def list_all_iff)
  have "(key, t) \<in> set ?d" using key by (rule map_of_SomeD)
  then have "cell_ok (f # fs)" using cells cell by fastforce
  then have okc: "cell_ok (f\<lparr>field_lists := field_lists f @ [transports]\<rparr> # fs)"
    by (auto simp: cell_ok_def split: list.splits)
  show "store_inv self1"
    using dist cells okc by (simp add: store_inv_def list_all_iff self1_def)
  show "diag_table_dict self1 = diag_table_dict self"
    by (simp add: self1_def)
  show "resolve self1 k =
      (if k = key then map_option with_transports (resolve self k) else resolve self k)"
  proof (cases "k = key")
    case True
    then show ?thesis using key cell by (simp add: resolve_def self1_def)
  next
    case False
    show ?thesis
    proof (cases "map_of ?d k")
      case None
      then show ?thesis using False by (simp add: resolve_def self1_def)
    next
      case (Some t')
      then have "fields_ref t' \<noteq> fields_ref t"
        using addr_distinct [OF dist Some key False] by simp
      then show ?thesis using False Some by (simp add: resolve_def self1_def)
    qed
  qed
qed

lemma tier_tests_cong:
  "resolve self1 k = resolve self k \<Longrightarrow>
     nonempty_tier self1 k = nonempty_tier self k \<and> native_z_tier self1 k = native_z_tier self k"
  by (simp add: nonempty_tier_def native_z_tier_def variable_list_def)

lemma dump_loop_ok:
  "store_inv self \<Longrightarrow> distinct ks \<Longrightarrow> set ks \<subseteq> fst ` set (diag_table_dict self) \<Longrightarrow>
   set ks \<inter> fst ` set files = {} \<Longrightarrow>
     \<exists>self'. dump_loop ks self files =
         Inr (files @ map (\<lambda>k. (k, the (map_of (diag_table_dict self) k)))
                        (filter (nonempty_tier self) ks), self') \<and>
       diag_table_dict self' = diag_table_dict self \<and> store_inv self' \<and>
       (\<forall>k. resolve self' k =
          (if k \<in> set ks \<and> nonempty_tier self k \<and> native_z_tier self k
           then map_option with_transports (resolve self k) else resolve self k))"
proof (induction ks arbitrary: self files)
  case Nil
  then show ?case by simp
next
  case (Cons key ks)
  let ?d = "diag_table_dict self"
  have "key \<in> fst ` set ?d" using Cons.prems(3) by simp
  then obtain t where t: "map_of ?d key = Some t"
    by (metis map_of_eq_None_iff not_Some_eq)
  have "(key, t) \<in> set ?d" using t by (rule map_of_SomeD)
  then have "cell_ok (heap self (fields_ref t))"
    using Cons.prems(1) by (fastforce simp: store_inv_def list_all_iff)
  then obtain f l ls where c: "heap self (fields_ref t) = [f]" "field_lists f = l # ls"
    using cell_ok_cases by blast
  have rk: "resolve self key = Some (t, [f])"
    using t c by (simp add: resolve_def)
  have ne: "nonempty_tier self key = (l \<noteq> [])"
    using rk c by (simp add: nonempty_tier_def variable_list_def)
  have nz: "native_z_tier self key = (module f = ''ocean_model'' \<and> ends_with_z key)"
    using rk by (simp add: native_z_tier_def)
  have fresh: "key \<notin> fst ` set files" "key \<notin> set ks" "distinct ks"
    "set ks \<subseteq> fst ` set ?d"
    using Cons.prems by auto
  show ?case
  proof (cases "l \<noteq> []")
    case False
    have step: "dump_loop (key # ks) self files = dump_loop ks self files"
      using t c False by simp
    have "set ks \<inter> fst ` set files = {}" using Cons.prems(4) by auto
    from Cons.IH [OF Cons.prems(1) fresh(3,4) this]
    obtain self' where r: "dump_loop ks self files =
        Inr (files @ map (\<lambda>k. (k, the (map_of ?d k))) (filter (nonempty_tier self) ks), self')"
      "diag_table_dict self' = ?d" "store_inv self'"
      "\<And>k. resolve self' k =
         (if k \<in> set ks \<and> nonempty_tier self k \<and> native_z_tier self k
          then map_option with_transports (resolve self k) else resolve self k)"
      by blast
    show ?thesis
      using step r False ne by (intro exI [of _ self']) (auto simp del: dump_loop.simps)
  next
    case True
    let ?files1 = "files @ [(key, t)]"
    have f1: "AList.update key (copy t) files = ?files1"
      using fresh(1) by (simp add: update_fresh_key copy_def)
    have disj: "set ks \<inter> fst ` set ?files1 = {}"
      using Cons.prems(4) fresh(2) by auto
    show ?thesis
    proof (cases "module f = ''ocean_model'' \<and> ends_with_z key")
      case False
      have step: "dump_loop (key # ks) self files = dump_loop ks self ?files1"
        using t c True False f1 by (auto simp: Let_def)
      from Cons.IH [OF Cons.prems(1) fresh(3,4) disj]
      obtain self' where r: "dump_loop ks self ?files1 =
          Inr (?files1 @ map (\<lambda>k. (k, the (map_of ?d k))) (filter (nonempty_tier self) ks), self')"
        "diag_table_dict self' = ?d" "store_inv self'"
        "\<And>k. resolve self' k =
           (if k \<in> set ks \<and> nonempty_tier self k \<and> native_z_tier self k
            then map_option with_transports (resolve self k) else resolve self k)"
        by blast
      show ?thesis
        using step r True False ne nz t
        by (intro exI [of _ self']) (auto simp del: dump_loop.simps)
    next
      case nat: True
      let ?self1 = "self\<lparr>heap := (heap self)(fields_ref t :=
                      f\<lparr>field_lists := field_lists f @ [transports]\<rparr> # [])\<rparr>"
      note m = add_transports_ok [OF Cons.prems(1) t c(1)]
      have step: "dump_loop (key # ks) self files = dump_loop ks ?self1 ?files1"
        using t c True nat f1 by (simp add: Let_def copy_def)
      have sub1: "set ks \<subseteq> fst ` set (diag_table_dict ?self1)"
        using fresh(4) by simp
      from Cons.IH [OF m(1) fresh(3) sub1 disj]
      obtain self' where r: "dump_loop ks ?self1 ?files1 =
          Inr (?files1 @ map (\<lambda>k. (k, the (map_of (diag_table_dict ?self1) k)))
                           (filter (nonempty_tier ?self1) ks), self')"
        "diag_table_dict self' = diag_table_dict ?self1" "store_inv self'"
        "\<And>k. resolve self' k =
           (if k \<in> set ks \<and> nonempty_tier ?self1 k \<and> native_z_tier ?self1 k
            then map_option with_transports (resolve ?self1 k) else resolve ?self1 k)"
        by blast
      have same: "nonempty_tier ?self1 k = nonempty_tier self k"
        "native_z_tier ?self1 k = native_z_tier self k" if "k \<in> set ks" for k
      proof -
        have "k \<noteq> key" using that fresh(2) by auto
        then have "resolve ?self1 k = resolve self k" using m(3) [of k] by simp
        then show "nonempty_tier ?self1 k = nonempty_tier self k"
          "native_z_tier ?self1 k = native_z_tier self k"
          using tier_tests_cong by blast+
      qed
      have filt: "filter (nonempty_tier ?self1) ks = filter (nonempty_tier self) ks"
        using same(1) by (intro filter_cong) simp_all
      have res: "resolve self' k =
          (if k \<in> set (key # ks) \<and> nonempty_tier self k \<and> native_z_tier self k
           then map_option with_transports (resolve self k) else resolve self k)" for k
      proof (cases "k = key")
        case True
        then show ?thesis
          using r(4) [of k] m(3) [of k] fresh(2) ne nz \<open>l \<noteq> []\<close> nat by simp
      next
        case False
        then show ?thesis
          using r(4) [of k] m(3) [of k] same [of k] by auto
      qed
      have "dump_loop (key # ks) self files =
          Inr (files @ map (\<lambda>k. (k, the (map_of ?d k))) (filter (nonempty_tier self) (key # ks)), self')"
        using step r(1) filt ne True t by (simp del: dump_loop.simps)
      moreover have "diag_table_dict self' = ?d" using r(2) by simp
      ultimately show ?thesis
        using r(3) res by (intro exI [of _ self']) (simp del: dump_loop.simps)
    qed
  qed
qed


lemma tiers_distinct: "distinct (map fst (diag_table_dict (DiagTableClass_init vert_grid)))"
  unfolding tiers by simp

lemma dump_to_json_ok:
  assumes inv: "registry_inv vert_grid self"
  shows "\<exists>self'. dump_to_json writable self filename =
           (let files = map (\<lambda>k. (k, the (map_of (diag_table_dict self) k)))
                          (filter (nonempty_tier self) (map fst (diag_table_dict self)))
            in if files \<noteq> [] then
                 (if can_open writable filename then
                    Inr (Written filename
                           (map (\<lambda>(freq, t). (freq, t, heap self' (fields_ref t))) files), self')
                  else Inl (OSError filename))
               else Inr (WarningNoFile, self')) \<and>
           diag_table_dict self' = diag_table_dict self \<and> registry_inv vert_grid self' \<and>
           (\<forall>k. resolve self' k =
              (if nonempty_tier self k \<and> native_z_tier self k
               then map_option with_transports (resolve self k) else resolve self k))"
proof -
  let ?ks = "map fst (diag_table_dict self)"
  have s: "store_inv self" and d: "distinct ?ks"
    using inv tiers_distinct [of vert_grid] by (simp_all add: registry_inv_def)
  have "set ?ks \<subseteq> fst ` set (diag_table_dict self)" "set ?ks \<inter> fst ` set [] = {}"
    by simp_all
  from dump_loop_ok [OF s d this]
  obtain self' where r: "dump_loop ?ks self [] =
      Inr ([] @ map (\<lambda>k. (k, the (map_of (diag_table_dict self) k))) (filter (nonempty_tier self) ?ks), self')"
    "diag_table_dict self' = diag_table_dict self" "store_inv self'"
    "\<And>k. resolve self' k =
       (if k \<in> set ?ks \<and> nonempty_tier self k \<and> native_z_tier self k
        then map_option with_transports (resolve self k) else resolve self k)"
    by blast
  have mem: "k \<in> set ?ks" if "nonempty_tier self k" for k
  proof -
    from that have "map_of (diag_table_dict self) k \<noteq> None"
      by (auto simp: nonempty_tier_def variable_list_def resolve_def split: option.splits)
    then show ?thesis
      by (metis map_of_eq_None_iff set_map)
  qed
  have res: "resolve self' k =
      (if nonempty_tier self k \<and> native_z_tier self k
       then map_option with_transports (resolve self k) else resolve self k)" for k
    using r(4) [of k] mem [of k] by auto
  have "registry_inv vert_grid self'"
    using inv r(2,3) by (simp add: registry_inv_def)
  then show ?thesis
    using r(1,2) res
    by (intro exI [of _ self']) (simp add: dump_to_json_def Let_def)
qed



lemma map_of_graph:
  "map_of (map (\<lambda>k. (k, g k)) ks) key = (if key \<in> set ks then Some (g key) else None)"
  by (induction ks) auto

text \<open>
  Claim C2. On every registry state and for every file that can be opened for writing, the
  document of \<^verbatim>\<open>dump_to_json\<close> holds, under the name of each tier with a non-empty
  variable-list and under no other name, the template of the registry; the list
  of transports (\<^const>\<open>transports\<close>) is appended as one more entry after the lists the
  template has exactly when the module of the tier is \<^verbatim>\<open>ocean_model\<close> and the name of the
  tier ends in \<^verbatim>\<open>_z\<close> (\<^const>\<open>native_z_tier\<close>), and every other serialized tier is as
  in the registry.
\<close>

theorem dump_transports:
  assumes "registry_inv vert_grid self" and "can_open writable filename"
  shows "\<exists>out self'. dump_to_json writable self filename = Inr (out, self') \<and>
           (\<forall>key. serialized out key =
              (if nonempty_tier self key
               then map_option (if native_z_tier self key then with_transports else id)
                      (resolve self key)
               else None))"
proof -
  let ?d = "diag_table_dict self"
  let ?ks = "filter (nonempty_tier self) (map fst ?d)"
  let ?files = "map (\<lambda>k. (k, the (map_of ?d k))) ?ks"
  from dump_to_json_ok [OF assms(1), of writable filename]
  obtain self' where r: "dump_to_json writable self filename =
      (let files = ?files
       in if files \<noteq> [] then
            (if can_open writable filename then
               Inr (Written filename
                      (map (\<lambda>(freq, t). (freq, t, heap self' (fields_ref t))) files), self')
             else Inl (OSError filename))
          else Inr (WarningNoFile, self'))"
    "diag_table_dict self' = ?d"
    "\<And>k. resolve self' k =
       (if nonempty_tier self k \<and> native_z_tier self k
        then map_option with_transports (resolve self k) else resolve self k)"
    by blast
  let ?out = "if ?files \<noteq> []
      then Written filename (map (\<lambda>(freq, t). (freq, t, heap self' (fields_ref t))) ?files)
      else WarningNoFile"
  have mem: "key \<in> set ?ks \<longleftrightarrow> nonempty_tier self key" for key
  proof -
    have "map_of ?d key \<noteq> None" if "nonempty_tier self key"
      using that
      by (auto simp: nonempty_tier_def variable_list_def resolve_def split: option.splits)
    then have "key \<in> set (map fst ?d)" if "nonempty_tier self key"
      using that by (metis map_of_eq_None_iff set_map)
    then show ?thesis by auto
  qed
  have doc: "map (\<lambda>(freq, t). (freq, t, heap self' (fields_ref t))) ?files =
      map (\<lambda>k. (k, the (map_of ?d k), heap self' (fields_ref (the (map_of ?d k))))) ?ks"
    by simp
  have ser: "serialized ?out key =
      (if nonempty_tier self key
       then map_option (if native_z_tier self key then with_transports else id) (resolve self key)
       else None)" for key
  proof (cases "nonempty_tier self key")
    case False
    then have "key \<notin> set ?ks" using mem by simp
    then show ?thesis
      using False unfolding doc by (simp add: map_of_graph)
  next
    case True
    then have k: "key \<in> set ?ks" using mem by simp
    have ne: "?files \<noteq> []"
    proof
      assume "?files = []"
      then have "?ks = []" by (simp only: map_is_Nil_conv)
      with k show False by (simp only: list.set empty_iff)
    qed
    from True obtain t where t: "map_of ?d key = Some t"
      by (auto simp: nonempty_tier_def variable_list_def resolve_def split: option.splits)
    have "serialized ?out key = Some (t, heap self' (fields_ref t))"
      using ne k t unfolding doc by (simp add: map_of_graph)
    also have "\<dots> = resolve self' key"
      using t r(2) by (simp add: resolve_def)
    also have "\<dots> = map_option (if native_z_tier self key then with_transports else id) (resolve self key)"
      using r(3) [of key] True by (simp add: option.map_id)
    finally show ?thesis using True by simp
  qed
  have "dump_to_json writable self filename = Inr (?out, self')"
    using r(1) assms(2) by (simp add: Let_def)
  then show ?thesis
    using ser by blast
qed

theorem dump_transports_witness:
  "\<exists>out s. dump_to_json (\<lambda>path. path = ''diag_table'')
       (projr (update
          (projr (update (DiagTableClass_init ''both'') ''FOO'' [''low''] False False ''both''))
          ''BAR'' [''low''] True False ''both''))
       ''diag_table'' = Inr (out, s) \<and>
     map_option (\<lambda>(t, cell). map (\<lambda>f. (module f, field_lists f)) cell)
         (serialized out ''low_native_z'') =
       Some [(''ocean_model'',
              [[''FOO''], [''volcello'', ''vmo'', ''vhGM'', ''vhml'', ''umo'', ''uhGM'', ''uhml'']])] \<and>
     map_option (\<lambda>(t, cell). map (\<lambda>f. (module f, field_lists f)) cell)
         (serialized out ''low_z'') =
       Some [(''ocean_model_z'', [[''FOO'']])] \<and>
     map_option (\<lambda>(t, cell). map (\<lambda>f. (module f, field_lists f)) cell)
         (serialized out ''low'') =
       Some [(''ocean_model'', [[''BAR'']])] \<and>
     serialized out ''medium'' = None \<and>
     serialized out ''medium_native_z'' = None"
proof -
  let ?s1 = "projr (update
      (projr (update (DiagTableClass_init ''both'') ''FOO'' [''low''] False False ''both''))
      ''BAR'' [''low''] True False ''both'')"
  let ?w = "\<lambda>path. path = ''diag_table''"
  have inv1: "registry_inv ''both'' ?s1"
    by (simp add: eval_registry)
  have o: "can_open ?w ''diag_table''"
    by (simp add: can_open_def)
  from dump_transports [OF inv1 o]
  obtain out s where r: "dump_to_json ?w ?s1 ''diag_table'' = Inr (out, s)"
    "\<And>key. serialized out key =
       (if nonempty_tier ?s1 key
        then map_option (if native_z_tier ?s1 key then with_transports else id) (resolve ?s1 key)
        else None)"
    by blast
  have a: "map_option (\<lambda>(t, cell). map (\<lambda>f. (module f, field_lists f)) cell)
      (serialized out ''low_native_z'') =
      Some [(''ocean_model'',
             [[''FOO''], [''volcello'', ''vmo'', ''vhGM'', ''vhml'', ''umo'', ''uhGM'', ''uhml'']])]"
    unfolding r(2) by (simp add: eval_registry transports_def)
  have b: "map_option (\<lambda>(t, cell). map (\<lambda>f. (module f, field_lists f)) cell)
      (serialized out ''low_z'') = Some [(''ocean_model_z'', [[''FOO'']])]"
    unfolding r(2) by (simp add: eval_registry transports_def)
  have c: "map_option (\<lambda>(t, cell). map (\<lambda>f. (module f, field_lists f)) cell)
      (serialized out ''low'') = Some [(''ocean_model'', [[''BAR'']])]"
    unfolding r(2) by (simp add: eval_registry transports_def)
  have d: "serialized out ''medium'' = None" "serialized out ''medium_native_z'' = None"
    unfolding r(2) by (simp_all add: eval_registry transports_def)
  show ?thesis using r(1) a b c d by blast
qed

section \<open>Unknown frequencies, the shallow copy, and skipped lines\<close>

lemmas eval_parser = parse_line_def line_loc_def str_strip_def isspace_def

text \<open>
  Claim C10. A frequency tag is not checked against the tiers of the registry: the line
  \<^verbatim>\<open>FOO : weekly_mean\<close> is accepted by the parser, and \<^verbatim>\<open>update\<close> with
  \<^verbatim>\<open>lMARBL_output_all\<close> false then ends in a KeyError on the registry, for a 2D and for a
  3D variable, and so does the whole routine on a file of that one line; no
  \<^verbatim>\<open>logger.error\<close> and \<^verbatim>\<open>sys.exit(1)\<close> is on that path.
\<close>

theorem unknown_frequency_key_error:
  "parse_line ''FOO : weekly_mean'' = Inr (Some (''FOO'', [''weekly''], [''mean''])) \<and>
   update (DiagTableClass_init ''native'') ''FOO'' [''weekly''] True False ''native'' =
     Inl (KeyError ''weekly'') \<and>
   update (DiagTableClass_init ''native'') ''FOO'' [''weekly''] False False ''native'' =
     Inl (KeyError ''weekly_native_z'') \<and>
   diagnostics_to_diag_table (\<lambda>path. True) [''ecosys_diagnostics'' \<mapsto> [''FOO : weekly_mean'']]
     (Some ''ecosys_diagnostics'') ''diag_table'' [] ''native'' False False =
     Inl (KeyError ''weekly_native_z'')"
proof -
  have p: "parse_line ''FOO : weekly_mean'' = Inr (Some (''FOO'', [''weekly''], [''mean'']))"
    by (simp add: eval_parser)
  have u1: "update (DiagTableClass_init ''native'') ''FOO'' [''weekly''] True False ''native'' =
      Inl (KeyError ''weekly'')"
    by (simp add: eval_registry)
  have u2: "update (DiagTableClass_init ''native'') ''FOO'' [''weekly''] False False ''native'' =
      Inl (KeyError ''weekly_native_z'')"
    by (simp add: eval_registry)
  have s: "str_strip ''FOO : weekly_mean'' = ''FOO : weekly_mean''"
    by (simp add: str_strip_def isspace_def)
  have d: "diagnostics_to_diag_table (\<lambda>path. True) [''ecosys_diagnostics'' \<mapsto> [''FOO : weekly_mean'']]
      (Some ''ecosys_diagnostics'') ''diag_table'' [] ''native'' False False =
      Inl (KeyError ''weekly_native_z'')"
    by (simp add: diagnostics_to_diag_table_def s p u2)
  show ?thesis using p u1 u2 d by simp
qed

text \<open>
  Claim C4 fails on \<^verbatim>\<open>dump_to_json\<close>. The copy of a template that it puts into the
  document is shallow, so appending the transports to the copy appends them to the list of
  the registry: after one call the \<^verbatim>\<open>"lists"\<close> of \<^verbatim>\<open>low_native_z\<close> in the registry has a
  second entry, and the document of a second call has the transports twice.
\<close>

theorem dump_changes_registry_lists:
  "\<exists>s1 out s2 out' s3.
     update (DiagTableClass_init ''native'') ''FOO'' [''low''] False False ''native'' = Inr s1 \<and>
     dump_to_json (\<lambda>path. path = ''diag_table'') s1 ''diag_table'' = Inr (out, s2) \<and>
     dump_to_json (\<lambda>path. path = ''diag_table'') s2 ''diag_table'' = Inr (out', s3) \<and>
     map_option (\<lambda>(t, cell). map field_lists cell) (resolve s1 ''low_native_z'') =
       Some [[[''FOO'']]] \<and>
     map_option (\<lambda>(t, cell). map field_lists cell) (resolve s2 ''low_native_z'') =
       Some [[[''FOO''], transports]] \<and>
     map_option (\<lambda>(t, cell). map field_lists cell) (serialized out' ''low_native_z'') =
       Some [[[''FOO''], transports, transports]]"
proof -
  let ?u = "update (DiagTableClass_init ''native'') ''FOO'' [''low''] False False ''native''"
  let ?s1 = "projr ?u"
  let ?d1 = "dump_to_json (\<lambda>path. path = ''diag_table'') ?s1 ''diag_table''"
  let ?s2 = "snd (projr ?d1)"
  let ?d2 = "dump_to_json (\<lambda>path. path = ''diag_table'') ?s2 ''diag_table''"
  have u: "\<not> isl ?u"
    by (simp add: eval_registry)
  have d1: "\<not> isl ?d1"
    by (simp add: eval_registry dump_to_json_def can_open_def copy_def)
  have d2: "\<not> isl ?d2"
    by (simp add: eval_registry dump_to_json_def can_open_def copy_def)
  have r1: "map_option (\<lambda>(t, cell). map field_lists cell) (resolve ?s1 ''low_native_z'') =
      Some [[[''FOO'']]]"
    by (simp add: eval_registry)
  have r2: "map_option (\<lambda>(t, cell). map field_lists cell) (resolve ?s2 ''low_native_z'') =
      Some [[[''FOO''], transports]]"
    by (simp add: eval_registry dump_to_json_def can_open_def copy_def)
  have r3: "map_option (\<lambda>(t, cell). map field_lists cell)
      (serialized (fst (projr ?d2)) ''low_native_z'') = Some [[[''FOO''], transports, transports]]"
    by (simp add: eval_registry dump_to_json_def can_open_def copy_def)
  have "?u = Inr ?s1" using u by simp
  moreover have "?d1 = Inr (fst (projr ?d1), ?s2)" using d1 by simp
  moreover have "?d2 = Inr (fst (projr ?d2), snd (projr ?d2))" using d2 by simp
  ultimately show ?thesis using r1 r2 r3 by blast
qed

text \<open>
  Claim C5 as stated fails on a name that holds \<^verbatim>\<open>ALT_CO2\<close> while
  \<^verbatim>\<open>lMARBL_output_alt_co2\<close> is false: the line is skipped before the duplicate check, so a
  file declaring such a name twice at the same frequency runs to its end, with the warning
  that no file is written.
\<close>

theorem alt_co2_duplicate_not_fatal:
  "parse_line (str_strip ''DIC_ALT_CO2 : medium_average'') =
     Inr (Some (''DIC_ALT_CO2'', [''medium''], [''average''])) \<and>
   diagnostics_to_diag_table (\<lambda>path. True)
     [''ecosys_diagnostics'' \<mapsto> [''DIC_ALT_CO2 : medium_average'', ''DIC_ALT_CO2 : medium_average'']]
     (Some ''ecosys_diagnostics'') ''diag_table'' [] ''native'' False False = Inr WarningNoFile"
proof -
  have p: "parse_line (str_strip ''DIC_ALT_CO2 : medium_average'') =
      Inr (Some (''DIC_ALT_CO2'', [''medium''], [''average'']))"
    by (simp add: eval_parser)
  have c: "str_contains ''ALT_CO2'' ''DIC_ALT_CO2''"
    by simp
  have d: "dump_to_json (\<lambda>path. True) (DiagTableClass_init ''native'') ''diag_table'' =
      Inr (WarningNoFile, DiagTableClass_init ''native'')"
    by (simp add: eval_registry dump_to_json_def can_open_def copy_def)
  show ?thesis
    using p by (simp add: diagnostics_to_diag_table_def c d)
qed

section \<open>The orchestration routine: duplicate declarations\<close>

lemma check_duplicates_Cons:
  "check_duplicates (g # rest) v pv =
     (if v \<in> seen_at pv g then Inl (Fatal DuplicateFrequency)
      else check_duplicates rest v
             (AList.update g ((case map_of pv g of None \<Rightarrow> [] | Some l \<Rightarrow> l) @ [v])
                (if map_of pv g = None then AList.update g [] pv else pv)))"
  by (cases "map_of pv g") (simp_all add: seen_at_def Let_def update_conv')

lemma seen_at_recorded:
  "seen_at (AList.update g ((case map_of pv g of None \<Rightarrow> [] | Some l \<Rightarrow> l) @ [v])
              (if map_of pv g = None then AList.update g [] pv else pv)) h =
     (if h = g then insert v (seen_at pv g) else seen_at pv h)"
  by (cases "map_of pv g") (simp_all add: seen_at_def update_conv')

lemma check_duplicates_dup:
  "f \<in> set fs \<Longrightarrow> v \<in> seen_at pv f \<Longrightarrow>
     check_duplicates fs v pv = Inl (Fatal DuplicateFrequency)"
proof (induction fs arbitrary: pv)
  case Nil
  then show ?case by simp
next
  case (Cons g fs)
  show ?case
  proof (cases "v \<in> seen_at pv g")
    case True
    then show ?thesis by (simp only: check_duplicates_Cons if_True)
  next
    case False
    with Cons.prems have "f \<noteq> g" by auto
    then have "f \<in> set fs" using Cons.prems(1) by simp
    moreover have "v \<in> seen_at (AList.update g ((case map_of pv g of None \<Rightarrow> [] | Some l \<Rightarrow> l) @ [v])
        (if map_of pv g = None then AList.update g [] pv else pv)) f"
      using Cons.prems(2) \<open>f \<noteq> g\<close> by (simp only: seen_at_recorded if_False)
    ultimately show ?thesis
      using False Cons.IH by (simp only: check_duplicates_Cons if_False)
  qed
qed

lemma check_duplicates_ok:
  "check_duplicates fs v pv = Inr pv' \<Longrightarrow>
     seen_at pv' h = seen_at pv h \<union> (if h \<in> set fs then {v} else {})"
proof (induction fs arbitrary: pv)
  case Nil
  then show ?case by simp
next
  case (Cons g fs)
  let ?pv2 = "AList.update g ((case map_of pv g of None \<Rightarrow> [] | Some l \<Rightarrow> l) @ [v])
      (if map_of pv g = None then AList.update g [] pv else pv)"
  from Cons.prems have nd: "v \<notin> seen_at pv g" and run: "check_duplicates fs v ?pv2 = Inr pv'"
    by (auto simp only: check_duplicates_Cons split: if_splits)
  from Cons.IH [OF run] have "seen_at pv' h = seen_at ?pv2 h \<union> (if h \<in> set fs then {v} else {})" .
  then have "seen_at pv' h =
      (if h = g then insert v (seen_at pv g) else seen_at pv h) \<union> (if h \<in> set fs then {v} else {})"
    by (simp only: seen_at_recorded)
  then show ?case
    by auto
qed

lemma check_duplicates_error:
  "check_duplicates fs v pv = Inl e \<Longrightarrow> e = Fatal DuplicateFrequency"
proof (induction fs arbitrary: pv)
  case Nil
  then show ?case by simp
next
  case (Cons g fs)
  then show ?case
    by (auto simp only: check_duplicates_Cons split: if_splits)
qed

lemma process_lines_Cons:
  "process_lines (l # rest) d2 vg al ac st =
     (case process_lines [l] d2 vg al ac st of
        Inl e \<Rightarrow> Inl e
      | Inr st' \<Rightarrow> process_lines rest d2 vg al ac st')"
proof -
  obtain pv dt where st: "st = (pv, dt)" by (cases st)
  show ?thesis
    unfolding st
    by (simp add: Let_def split: sum.splits option.splits prod.splits)
qed

lemma process_lines_append:
  "process_lines (a @ b) d2 vg al ac st =
     (case process_lines a d2 vg al ac st of
        Inl e \<Rightarrow> Inl e
      | Inr st' \<Rightarrow> process_lines b d2 vg al ac st')"
proof (induction a arbitrary: st)
  case Nil
  then show ?case by simp
next
  case (Cons l a)
  show ?case
  proof (cases "process_lines [l] d2 vg al ac st")
    case (Inl e)
    then show ?thesis
      using process_lines_Cons [of l "a @ b" d2 vg al ac st]
        process_lines_Cons [of l a d2 vg al ac st]
      by (simp del: process_lines.simps)
  next
    case (Inr s)
    then show ?thesis
      using process_lines_Cons [of l "a @ b" d2 vg al ac st]
        process_lines_Cons [of l a d2 vg al ac st] Cons.IH [of s]
      by (simp del: process_lines.simps)
  qed
qed

lemma process_lines_append_Inr:
  assumes "process_lines (a @ b) d2 vg al ac st = Inr r"
  obtains s where "process_lines a d2 vg al ac st = Inr s" "process_lines b d2 vg al ac s = Inr r"
  using assms unfolding process_lines_append by (auto split: sum.splits)


lemma process_lines_mono:
  "process_lines ls d2 vg al ac (pv, dt) = Inr (pv', dt') \<Longrightarrow> seen_at pv h \<subseteq> seen_at pv' h"
proof (induction ls arbitrary: pv dt)
  case Nil
  then show ?case by simp
next
  case (Cons l ls)
  show ?case
  proof (cases "parse_line (str_strip l)")
    case (Inl e)
    with Cons.prems show ?thesis by simp
  next
    case (Inr parsed)
    show ?thesis
    proof (cases parsed)
      case None
      with Inr Cons show ?thesis by simp
    next
      case (Some triple)
      obtain v fs ops where tr: "triple = (v, fs, ops)" by (cases triple)
      show ?thesis
      proof (cases "\<not> ac \<and> str_contains ''ALT_CO2'' v")
        case True
        with Inr Some tr Cons show ?thesis by simp
      next
        case False
        with Inr Some tr Cons.prems obtain pv1 dt1 where
          c: "check_duplicates fs v pv = Inr pv1"
          and r: "process_lines ls d2 vg al ac (pv1, dt1) = Inr (pv', dt')"
          by (auto simp: Let_def split: sum.splits)
        have "seen_at pv h \<subseteq> seen_at pv1 h"
          using check_duplicates_ok [OF c, of h] by auto
        then show ?thesis using Cons.IH [OF r] by blast
      qed
    qed
  qed
qed

lemma process_line_records:
  assumes "process_lines [l] d2 vg al ac (pv, dt) = Inr (pv', dt')"
    and "parse_line (str_strip l) = Inr (Some (v, fs, ops))"
    and "ac \<or> \<not> str_contains ''ALT_CO2'' v" and "f \<in> set fs"
  shows "v \<in> seen_at pv' f"
proof -
  from assms(1,2,3) have "check_duplicates fs v pv = Inr pv'"
    by (auto simp: Let_def split: sum.splits)
  from check_duplicates_ok [OF this, of f] assms(4) show ?thesis by simp
qed

lemma process_line_dup:
  assumes "parse_line (str_strip l) = Inr (Some (v, fs, ops))"
    and "ac \<or> \<not> str_contains ''ALT_CO2'' v" and "f \<in> set fs" and "v \<in> seen_at pv f"
  shows "process_lines [l] d2 vg al ac (pv, dt) = Inl (Fatal DuplicateFrequency)"
  using assms(1,2) check_duplicates_dup [OF assms(3,4)] by auto


lemma exit_status_nonzero: "exit_status e \<noteq> 0"
  by (cases e) simp_all

text \<open>
  Claim C5, amended. When the input file declares a name at the same frequency tag in two
  lines, anywhere in the file, and the name is not skipped by the \<^verbatim>\<open>ALT_CO2\<close> filter
  (the inclusion flag is set, or the name does not hold \<^verbatim>\<open>ALT_CO2\<close>), the routine does
  not complete: it ends with a non-zero status no later than the second of the two lines, and
  when the lines before that one are processed without error, it ends there with the
  duplicate-frequency fatal error. The names seen are tracked for the whole run in
  \<^verbatim>\<open>processed_vars\<close>, from a frequency tag to the names seen at it.
\<close>

theorem duplicate_frequency_fatal:
  assumes infile: "files path = Some all_lines"
    and ij: "i < j" "j < length all_lines"
    and first: "parse_line (str_strip (all_lines ! i)) = Inr (Some (varname, frequency_i, operator_i))"
    and second: "parse_line (str_strip (all_lines ! j)) = Inr (Some (varname, frequency_j, operator_j))"
    and freq: "freq \<in> set frequency_i" "freq \<in> set frequency_j"
    and kept: "lMARBL_output_alt_co2 \<or> \<not> str_contains ''ALT_CO2'' varname"
  shows "\<exists>e. diagnostics_to_diag_table writable files (Some path) diag_table_out diag2D_list
                vert_grid lMARBL_output_all lMARBL_output_alt_co2 = Inl e \<and>
             process_lines (take (Suc j) all_lines) diag2D_list vert_grid lMARBL_output_all
                lMARBL_output_alt_co2 ([], DiagTableClass_init vert_grid) = Inl e \<and>
             exit_status e \<noteq> 0 \<and>
             ((\<exists>state. process_lines (take j all_lines) diag2D_list vert_grid lMARBL_output_all
                 lMARBL_output_alt_co2 ([], DiagTableClass_init vert_grid) = Inr state) \<longrightarrow>
              e = Fatal DuplicateFrequency)"
proof -
  let ?P = "\<lambda>ls st. process_lines ls diag2D_list vert_grid lMARBL_output_all lMARBL_output_alt_co2 st"
  let ?st0 = "([] :: (string \<times> string list) list, DiagTableClass_init vert_grid)"
  have split_j: "take (Suc j) all_lines = take j all_lines @ [all_lines ! j]"
    using ij(2) by (rule take_Suc_conv_app_nth)
  have split_all: "all_lines = take (Suc j) all_lines @ drop (Suc j) all_lines"
    by simp
  have "i < length (take j all_lines)" using ij by simp
  from id_take_nth_drop [OF this]
  have split_i: "take j all_lines =
      take i all_lines @ [all_lines ! i] @ drop (Suc i) (take j all_lines)"
    using ij by (simp add: min_def)
  have whole: "?P all_lines ?st0 = Inl e" if "?P (take (Suc j) all_lines) ?st0 = Inl e" for e
  proof -
    have "?P (take (Suc j) all_lines @ drop (Suc j) all_lines) ?st0 = Inl e"
      unfolding process_lines_append using that by simp
    then show ?thesis by simp
  qed
  have result: "diagnostics_to_diag_table writable files (Some path) diag_table_out diag2D_list
      vert_grid lMARBL_output_all lMARBL_output_alt_co2 = Inl e" if "?P (take (Suc j) all_lines) ?st0 = Inl e" for e
    using whole [OF that] infile by (simp add: diagnostics_to_diag_table_def)
  show ?thesis
  proof (cases "?P (take j all_lines) ?st0")
    case (Inl e)
    then have "?P (take (Suc j) all_lines) ?st0 = Inl e"
      unfolding split_j process_lines_append by simp
    then show ?thesis
      using result Inl exit_status_nonzero by auto
  next
    case (Inr st)
    obtain pv dt where st: "st = (pv, dt)" by (cases st)
    from Inr have "?P (take i all_lines @ ([all_lines ! i] @ drop (Suc i) (take j all_lines))) ?st0 = Inr (pv, dt)"
      using split_i st by simp
    then obtain s1 where s1: "?P ([all_lines ! i] @ drop (Suc i) (take j all_lines)) s1 = Inr (pv, dt)"
      by (rule process_lines_append_Inr)
    then obtain s2 where s2: "?P [all_lines ! i] s1 = Inr s2"
      "?P (drop (Suc i) (take j all_lines)) s2 = Inr (pv, dt)"
      by (rule process_lines_append_Inr)
    obtain pv1 dt1 where p1: "s1 = (pv1, dt1)" by (cases s1)
    obtain pv2 dt2 where p2: "s2 = (pv2, dt2)" by (cases s2)
    have "varname \<in> seen_at pv2 freq"
      using process_line_records [OF s2(1) [unfolded p1 p2] first kept freq(1)] .
    moreover have "seen_at pv2 freq \<subseteq> seen_at pv freq"
      using process_lines_mono [OF s2(2) [unfolded p2]] .
    ultimately have "varname \<in> seen_at pv freq" by blast
    from process_line_dup [OF second kept freq(2) this]
    have "?P [all_lines ! j] (pv, dt) = Inl (Fatal DuplicateFrequency)" .
    then have "?P (take (Suc j) all_lines) ?st0 = Inl (Fatal DuplicateFrequency)"
      unfolding split_j process_lines_append using Inr st by simp
    then show ?thesis
      using result by auto
  qed
qed

theorem duplicate_frequency_fatal_witness:
  "diagnostics_to_diag_table (\<lambda>path. True)
     [''ecosys_diagnostics'' \<mapsto> [''BAR : low_mean'', ''# other lines'', ''BAR : low_mean'']]
     (Some ''ecosys_diagnostics'') ''diag_table'' [] ''native'' False False =
   Inl (Fatal DuplicateFrequency)"
proof -
  let ?lines = "[''BAR : low_mean'', ''# other lines'', ''BAR : low_mean'']"
  have p: "parse_line (str_strip ''BAR : low_mean'') = Inr (Some (''BAR'', [''low''], [''mean'']))"
    "parse_line (str_strip ''# other lines'') = Inr None"
    by (simp_all add: eval_parser)
  have c: "\<not> str_contains ''ALT_CO2'' ''BAR''"
    by simp
  have u: "\<not> isl (update (DiagTableClass_init ''native'') ''BAR'' [''low''] False False ''native'')"
    by (simp add: eval_registry)
  have pre: "\<exists>state. process_lines (take 2 ?lines) [] ''native'' False False
      ([], DiagTableClass_init ''native'') = Inr state"
  proof -
    obtain s where "update (DiagTableClass_init ''native'') ''BAR'' [''low''] False False ''native'' = Inr s"
      using u by (cases "update (DiagTableClass_init ''native'') ''BAR'' [''low''] False False ''native''") auto
    then show ?thesis by (simp add: p c)
  qed
  from duplicate_frequency_fatal [of "[''ecosys_diagnostics'' \<mapsto> ?lines]" "''ecosys_diagnostics''"
      ?lines 0 2 "''BAR''" "[''low'']" "[''mean'']" "[''low'']" "[''mean'']" "''low''" False
      "\<lambda>path. True" "''diag_table''" "[]" "''native''" False]
  show ?thesis
    using p c pre by auto
qed

end
